theory Spec2Isabelle
  imports Main "HOL-Library.AList"
begin

section \<open>Values thrown by the code\<close>

text \<open>
  Every \<^verbatim>\<open>throw\<close> of the sources is a value of this type. \<open>Error m\<close> is
  \<^verbatim>\<open>new Error(m)\<close>; \<open>TypeError\<close> is what the runtime throws when a property of
  \<^verbatim>\<open>undefined\<close> or \<^verbatim>\<open>null\<close> is read or a non-function is called; \<open>BadRequest\<close> is the
  \<^verbatim>\<open>http-errors\<close> class; \<open>AggregateAjvError\<close> carries one (path, message) pair per
  offending field; \<open>NonError\<close> stands for a thrown value that is not an instance of
  \<^verbatim>\<open>Error\<close>.
\<close>

datatype error =
    Error string
  | TypeError string
  | LexError string
  | SyntaxError string
  | BadRequest string
  | AggregateAjvError "(string \<times> string) list"
  | NonError string

text \<open>\<^verbatim>\<open>error.message\<close>; an aggregate error joins nothing here, its entries are read one by one.\<close>

fun error_message :: "error \<Rightarrow> string" where
  "error_message (Error m) = m"
| "error_message (TypeError m) = m"
| "error_message (LexError m) = m"
| "error_message (SyntaxError m) = m"
| "error_message (BadRequest m) = m"
| "error_message (AggregateAjvError fs) = []"
| "error_message (NonError m) = []"

fun instanceofError :: "error \<Rightarrow> bool" where
  "instanceofError (NonError _) = False"
| "instanceofError _ = True"

fun error_name :: "error \<Rightarrow> string" where
  "error_name (Error _) = ''Error''"
| "error_name (TypeError _) = ''TypeError''"
| "error_name (LexError _) = ''LexError''"
| "error_name (SyntaxError _) = ''SyntaxError''"
| "error_name (BadRequest _) = ''BadRequestError''"
| "error_name (AggregateAjvError _) = ''AggregateAjvError''"
| "error_name (NonError _) = []"

section \<open>Tokens\<close>

datatype token_type =
    T_ident | T_string | T_number | T_operator | T_conditional
  | T_dot | T_parenleft | T_parenright | T_comma | T_eos

datatype token = Token (ttype: token_type) (tvalue: string)

definition eos_token :: token where
  "eos_token = Token T_eos ''eos''"

text \<open>\<^verbatim>\<open>tokens.shift()\<close>: the first element, or \<^verbatim>\<open>undefined\<close>, and the array left.\<close>

fun shift :: "'a list \<Rightarrow> 'a option \<times> 'a list" where
  "shift [] = (None, [])"
| "shift (x # xs) = (Some x, xs)"

section \<open>String helpers of the host language\<close>

definition startsWith :: "string \<Rightarrow> string \<Rightarrow> bool" where
  "startsWith p s = (take (length p) s = p)"

definition endsWith :: "string \<Rightarrow> string \<Rightarrow> bool" where
  "endsWith p s = (length p \<le> length s \<and> drop (length s - length p) s = p)"

text \<open>\<^verbatim>\<open>s.replace(/^(properties|traits)\./, '')\<close>\<close>

definition strip_bag_prefix :: "string \<Rightarrow> string" where
  "strip_bag_prefix s =
     (if startsWith ''properties.'' s then drop (length ''properties.'') s
      else if startsWith ''traits.'' s then drop (length ''traits.'') s
      else s)"

text \<open>\<^verbatim>\<open>/^(properties|traits)/.test(s)\<close>\<close>

definition is_bag_path :: "string \<Rightarrow> bool" where
  "is_bag_path s = (startsWith ''properties'' s \<or> startsWith ''traits'' s)"

text \<open>\<^verbatim>\<open>s.replace(/^"/, '').replace(/"$/, '')\<close>\<close>

definition strip_quotes :: "string \<Rightarrow> string" where
  "strip_quotes s =
     (let s1 = (if startsWith ''\"'' s then tl s else s)
      in if endsWith ''\"'' s1 then butlast s1 else s1)"

text \<open>\<^verbatim>\<open>s.split('.')[0]\<close>\<close>

definition first_segment :: "string \<Rightarrow> string" where
  "first_segment s = takeWhile (\<lambda>c. c \<noteq> CHR ''.'') s"

section \<open>Conditions\<close>

text \<open>
  The values a condition can carry. \<^verbatim>\<open>Number(text)\<close> yields an IEEE double; the type
  \<open>'n\<close> of numbers and the two conversions \<^verbatim>\<open>Number\<close> (text to number) and
  \<^verbatim>\<open>String\<close> (number to text) are parameters \<open>N\<close> and \<open>S\<close> of the parser.
\<close>

datatype 'n jsvalue = VString string | VNumber 'n | VBoolean bool

text \<open>
  \<^verbatim>\<open>Condition\<close>: the node types \<^verbatim>\<open>'event-type'\<close>, \<^verbatim>\<open>'event'\<close>, \<^verbatim>\<open>'event-property'\<close> and
  \<^verbatim>\<open>'group'\<close>, with their fields in the order operator, value (name first for a
  property). \<open>Undefined\<close> is the value \<^verbatim>\<open>nodes[0]\<close> of an empty node list, which
  \<^verbatim>\<open>parse\<close> returns and an enclosing scope pushes as a child.
\<close>

datatype 'n condition =
    EventType string string
  | Event string string
  | EventProperty string string "'n jsvalue option"
  | Group string "'n condition list"
  | Undefined

text \<open>\<^verbatim>\<open>Subscription\<close> of \<^verbatim>\<open>parse-fql.ts\<close>: a condition or \<^verbatim>\<open>{ error }\<close>.\<close>

datatype 'n fql_subscription = Cond "'n condition" | ErrorCondition error

datatype condition_type = CT_event_type | CT_event | CT_event_property | CT_inherited

text \<open>
  \<^verbatim>\<open>tokenToConditionType[tokenStart]\<close>. The table is a plain object literal, so a key
  that names a property of \<^verbatim>\<open>Object.prototype\<close> finds that property: a truthy value
  that is none of the three condition types (\<open>CT_inherited\<close>).
\<close>

definition object_prototype_keys :: "string list" where
  "object_prototype_keys =
     [''constructor'', ''hasOwnProperty'', ''isPrototypeOf'', ''propertyIsEnumerable'',
      ''toLocaleString'', ''toString'', ''valueOf'', ''__proto__'',
      ''__defineGetter__'', ''__defineSetter__'', ''__lookupGetter__'', ''__lookupSetter__'']"

definition tokenToConditionType :: "string \<Rightarrow> condition_type option" where
  "tokenToConditionType k =
     (if k = ''type'' then Some CT_event_type
      else if k = ''event'' then Some CT_event
      else if k = ''properties'' then Some CT_event_property
      else if k = ''traits'' then Some CT_event_property
      else if k \<in> set object_prototype_keys then Some CT_inherited
      else None)"

fun getTokenValue :: "(string \<Rightarrow> 'n) \<Rightarrow> token \<Rightarrow> 'n jsvalue" where
  "getTokenValue N (Token ty v) =
     (if ty = T_string then VString (strip_quotes v)
      else if ty = T_number then VNumber (N v)
      else if ty = T_ident \<and> v \<in> set [''true'', ''false''] then VBoolean (v = ''true'')
      else VString v)"

text \<open>\<^verbatim>\<open>String(x)\<close> on the values above.\<close>

fun String_of :: "('n \<Rightarrow> string) \<Rightarrow> 'n jsvalue \<Rightarrow> string" where
  "String_of S (VString s) = s"
| "String_of S (VNumber n) = S n"
| "String_of S (VBoolean b) = (if b then ''true'' else ''false'')"

definition isFqlFunction :: "token \<Rightarrow> bool" where
  "isFqlFunction token = (ttype token = T_ident \<and> tvalue token \<in> set [''contains'', ''match''])"

section \<open>The function-call parser\<close>

text \<open>
  \<^verbatim>\<open>parseFqlFunction(name, nodes, tokens, { negate })\<close> mutates \<open>nodes\<close> and \<open>tokens\<close>;
  the model returns both. The two \<^verbatim>\<open>if (name === ...)\<close> blocks of the source exclude
  each other, and so do the two \<^verbatim>\<open>nodes.push\<close> tests inside each, which are kept in
  sequence as written.
\<close>

definition push_call_nodes ::
  "'n condition list \<Rightarrow> token \<Rightarrow> string \<Rightarrow> string \<Rightarrow> 'n condition list" where
  "push_call_nodes nodes nameToken operator val =
     (let nodes1 = (if tvalue nameToken = ''event''
                    then nodes @ [Event operator val] else nodes)
      in if is_bag_path (tvalue nameToken)
         then nodes1 @ [EventProperty (strip_bag_prefix (tvalue nameToken)) operator
                          (Some (VString val))]
         else nodes1)"

definition parseFqlFunction ::
  "(string \<Rightarrow> 'n) \<Rightarrow> ('n \<Rightarrow> string) \<Rightarrow> string \<Rightarrow> 'n condition list \<Rightarrow> token list \<Rightarrow> bool
     \<Rightarrow> error + ('n condition list \<times> token list)" where
  "parseFqlFunction N S name nodes tokens negate =
     (if name = ''contains'' then
        (let tokens1 = snd (shift tokens) in
         case shift tokens1 of
           (None, _) \<Rightarrow> Inl (Error ''contains() is missing a 1st argument'')
         | (Some nameToken, tokens2) \<Rightarrow>
             (let tokens3 = snd (shift tokens2) in
              case shift tokens3 of
                (None, _) \<Rightarrow> Inl (Error ''contains() is missing a 2nd argument'')
              | (Some valueToken, tokens4) \<Rightarrow>
                  (let tokens5 = snd (shift tokens4) in
                   Inr (push_call_nodes nodes nameToken
                          (if negate then ''not_contains'' else ''contains'')
                          (String_of S (getTokenValue N valueToken)),
                        tokens5))))
      else if name = ''match'' then
        (let tokens1 = snd (shift tokens) in
         case shift tokens1 of
           (None, _) \<Rightarrow> Inl (Error ''match() is missing a 1st argument'')
         | (Some nameToken, tokens2) \<Rightarrow>
             (let tokens3 = snd (shift tokens2) in
              case shift tokens3 of
                (None, _) \<Rightarrow> Inl (Error ''match() is missing a 2nd argument'')
              | (Some valueToken, tokens4) \<Rightarrow>
                  (let tokens5 = snd (shift tokens4);
                       (operator, val) =
                         (if endsWith ''*\"'' (tvalue valueToken)
                          then (if negate then ''not_starts_with'' else ''starts_with'',
                                butlast (String_of S (getTokenValue N valueToken)))
                          else (if negate then ''not_ends_with'' else ''ends_with'',
                                drop 1 (String_of S (getTokenValue N valueToken))))
                   in Inr (push_call_nodes nodes nameToken operator val, tokens5))))
      else Inr (nodes, tokens))"

section \<open>The recursive-descent parser\<close>

text \<open>
  The branch of \<^verbatim>\<open>parse\<close> for an \<^verbatim>\<open>ident\<close> token: the comparison form when the
  prefix before the first dot is in the table, then the function-call form.
\<close>

definition parse_ident ::
  "(string \<Rightarrow> 'n) \<Rightarrow> ('n \<Rightarrow> string) \<Rightarrow> token \<Rightarrow> 'n condition list \<Rightarrow> token list
     \<Rightarrow> error + ('n condition list \<times> token list)" where
  "parse_ident N S token nodes tokens =
     (let tokenStart = first_segment (tvalue token);
          conditionType = tokenToConditionType tokenStart;
          compared =
            (case conditionType of
               None \<Rightarrow> Inr (nodes, tokens)
             | Some ct \<Rightarrow>
                 (case shift tokens of
                    (None, _) \<Rightarrow> Inl (Error ''Operator token is missing'')
                  | (Some operatorToken, tokens1) \<Rightarrow>
                      (case shift tokens1 of
                         (None, _) \<Rightarrow> Inl (Error ''Value token is missing'')
                       | (Some valueToken, tokens2) \<Rightarrow>
                           Inr (if ct = CT_event then
                                  nodes @ [Event (tvalue operatorToken)
                                             (String_of S (getTokenValue N valueToken))]
                                else if ct = CT_event_type then
                                  nodes @ [EventType (tvalue operatorToken)
                                             (String_of S (getTokenValue N valueToken))]
                                else if ct = CT_event_property then
                                  (if tvalue operatorToken = ''!='' \<and> tvalue valueToken = ''null''
                                   then nodes @ [EventProperty (strip_bag_prefix (tvalue token))
                                                   ''exists'' None]
                                   else if tvalue operatorToken = ''='' \<and> tvalue valueToken = ''null''
                                   then nodes @ [EventProperty (strip_bag_prefix (tvalue token))
                                                   ''not_exists'' None]
                                   else nodes @ [EventProperty (strip_bag_prefix (tvalue token))
                                                   (tvalue operatorToken)
                                                   (Some (getTokenValue N valueToken))])
                                else nodes,
                                tokens2))))
      in case compared of
           Inl e \<Rightarrow> Inl e
         | Inr (nodes1, tokens1) \<Rightarrow>
             if isFqlFunction token
             then parseFqlFunction N S (tvalue token) nodes1 tokens1 False
             else Inr (nodes1, tokens1))"

text \<open>
  The branch for the operator \<^verbatim>\<open>!\<close>. \<^verbatim>\<open>isFqlFunction(tokens[0])\<close> reads
  \<^verbatim>\<open>tokens[0].type\<close>, which throws when no token is left.
\<close>

definition parse_negation ::
  "(string \<Rightarrow> 'n) \<Rightarrow> ('n \<Rightarrow> string) \<Rightarrow> 'n condition list \<Rightarrow> token list
     \<Rightarrow> error + ('n condition list \<times> token list)" where
  "parse_negation N S nodes tokens =
     (case tokens of
        [] \<Rightarrow> Inl (TypeError ''Cannot read property type of undefined'')
      | t0 # rest \<Rightarrow>
          if isFqlFunction t0
          then parseFqlFunction N S (tvalue t0) nodes rest True
          else Inr (nodes, tokens))"

text \<open>
  The inner loop of the \<^verbatim>\<open>parenleft\<close> branch: tokens are moved to \<open>groupTokens\<close> up to
  the first \<^verbatim>\<open>parenright\<close>; running out of tokens reads \<^verbatim>\<open>.type\<close> of
  \<^verbatim>\<open>undefined\<close>.
\<close>

fun collect_group :: "token list \<Rightarrow> token list \<Rightarrow> error + (token list \<times> token list)" where
  "collect_group groupTokens [] = Inl (TypeError ''Cannot read property type of undefined'')"
| "collect_group groupTokens (groupToken # tokens) =
     (if ttype groupToken \<noteq> T_parenright
      then collect_group (groupTokens @ [groupToken]) tokens
      else Inr (groupTokens, tokens))"

text \<open>The end of \<^verbatim>\<open>parse\<close>: a group for more than one node, else \<^verbatim>\<open>nodes[0]\<close>.\<close>

definition parse_result :: "'n condition list \<Rightarrow> string \<Rightarrow> 'n condition" where
  "parse_result nodes operator =
     (if length nodes > 1 then Group operator nodes
      else (case nodes of [] \<Rightarrow> Undefined | n # _ \<Rightarrow> n))"

lemma shift_snd_length: "length (snd (shift xs)) \<le> length xs"
  by (cases xs) simp_all

lemma shift_Some_length: "shift xs = (Some x, r) \<Longrightarrow> length r < length xs"
  by (cases xs) auto

lemma parseFqlFunction_length:
  assumes "parseFqlFunction N S name nodes tokens negate = Inr (nodes', tokens')"
  shows "length tokens' \<le> length tokens"
proof -
  have five: "length (snd (shift (snd (shift (snd (shift (snd (shift (snd (shift tokens))))))))))
                \<le> length tokens"
    by (meson shift_snd_length order_trans)
  have two: "\<And>a b. shift (snd (shift tokens)) = (a, b) \<Longrightarrow> b = snd (shift (snd (shift tokens)))"
    by simp
  have four: "\<And>a b c. shift (snd (shift c)) = (a, b) \<Longrightarrow> b = snd (shift (snd (shift c)))"
    by simp
  show ?thesis
    using assms five
    by (auto simp: parseFqlFunction_def Let_def split: if_splits prod.splits option.splits
             dest!: four)
qed

lemma parse_ident_length:
  assumes "parse_ident N S token nodes tokens = Inr (nodes', tokens')"
  shows "length tokens' \<le> length tokens"
  using assms
  by (auto simp: parse_ident_def Let_def
           split: if_splits prod.splits option.splits sum.splits
           dest!: parseFqlFunction_length shift_Some_length)

lemma parse_negation_length:
  assumes "parse_negation N S nodes tokens = Inr (nodes', tokens')"
  shows "length tokens' \<le> length tokens"
  using assms
  by (auto simp: parse_negation_def split: list.splits if_splits
           dest!: parseFqlFunction_length)

lemma collect_group_length:
  "collect_group acc tokens = Inr (groupTokens, rest)
     \<Longrightarrow> length groupTokens + length rest + 1 = length acc + length tokens"
  by (induction acc tokens rule: collect_group.induct) (auto split: if_splits)

text \<open>
  The loop of \<^verbatim>\<open>parse\<close>. \<open>nodes\<close> and \<open>operator\<close> are the locals of the source; the
  list holds the token about to be shifted into \<^verbatim>\<open>token\<close> and the array behind it.
  The four \<^verbatim>\<open>if\<close> statements of the body test the type of the same token, so at most
  one of them runs. A parenthesised scope is parsed by a recursive call on the
  collected tokens followed by an end-of-stream token.
\<close>

function parse_loop ::
  "(string \<Rightarrow> 'n) \<Rightarrow> ('n \<Rightarrow> string) \<Rightarrow> 'n condition list \<Rightarrow> string \<Rightarrow> token list
     \<Rightarrow> error + ('n condition list \<times> string)" where
  "parse_loop N S nodes operator [] = Inr (nodes, operator)"
| "parse_loop N S nodes operator (token # tokens) =
     (if ttype token = T_eos then Inr (nodes, operator)
      else if ttype token = T_ident then
        (case parse_ident N S token nodes tokens of
           Inl e \<Rightarrow> Inl e
         | Inr (nodes1, tokens1) \<Rightarrow> parse_loop N S nodes1 operator tokens1)
      else if ttype token = T_operator \<and> tvalue token = ''!'' then
        (case parse_negation N S nodes tokens of
           Inl e \<Rightarrow> Inl e
         | Inr (nodes1, tokens1) \<Rightarrow> parse_loop N S nodes1 operator tokens1)
      else if ttype token = T_parenleft then
        (case collect_group [] tokens of
           Inl e \<Rightarrow> Inl e
         | Inr (groupTokens, tokens1) \<Rightarrow>
             (case parse_loop N S [] ''and'' (groupTokens @ [eos_token]) of
                Inl e \<Rightarrow> Inl e
              | Inr (gnodes, goperator) \<Rightarrow>
                  parse_loop N S (nodes @ [parse_result gnodes goperator]) operator tokens1))
      else if ttype token = T_conditional then parse_loop N S nodes (tvalue token) tokens
      else parse_loop N S nodes operator tokens)"
  by pat_completeness auto
termination
proof (relation "measure (\<lambda>(N, S, nodes, operator, tokens). length tokens)")
  show "wf (measure (\<lambda>(N, S, nodes, operator, tokens). length tokens))"
    by simp
qed (auto dest!: parse_ident_length parse_negation_length collect_group_length)

definition parse :: "(string \<Rightarrow> 'n) \<Rightarrow> ('n \<Rightarrow> string) \<Rightarrow> token list \<Rightarrow> error + 'n condition" where
  "parse N S tokens =
     (case parse_loop N S [] ''and'' tokens of
        Inl e \<Rightarrow> Inl e
      | Inr (nodes, operator) \<Rightarrow> Inr (parse_result nodes operator))"

section \<open>The normalizer\<close>

text \<open>
  \<^verbatim>\<open>normalize\<close>: \<open>normalizedTokens\<close> is the accumulator and the list is the part of
  \<^verbatim>\<open>tokens\<close> from \<^verbatim>\<open>index\<close> on. The test reads \<^verbatim>\<open>tokens[index + 1].type\<close> and
  \<^verbatim>\<open>tokens[index + 2].type\<close> without a guard, which throws past the end of the array.
\<close>

fun normalize_loop :: "token list \<Rightarrow> token list \<Rightarrow> error + token list" where
  "normalize_loop normalizedTokens [] = Inr normalizedTokens"
| "normalize_loop normalizedTokens (t0 # ts) =
     (if ttype t0 = T_ident then
        (case ts of
           [] \<Rightarrow> Inl (TypeError ''Cannot read property type of undefined'')
         | t1 # ts1 \<Rightarrow>
             if ttype t1 = T_dot then
               (case ts1 of
                  [] \<Rightarrow> Inl (TypeError ''Cannot read property type of undefined'')
                | t2 # ts2 \<Rightarrow>
                    if ttype t2 = T_ident
                    then normalize_loop
                           (normalizedTokens @ [Token T_ident (tvalue t0 @ tvalue t1 @ tvalue t2)]) ts2
                    else normalize_loop (normalizedTokens @ [t0]) ts)
             else normalize_loop (normalizedTokens @ [t0]) ts)
      else normalize_loop (normalizedTokens @ [t0]) ts)"

definition normalize :: "token list \<Rightarrow> error + token list" where
  "normalize tokens = normalize_loop [] tokens"

section \<open>The entry point\<close>

text \<open>
  \<^verbatim>\<open>parseFql\<close>. The lexer \<^verbatim>\<open>lex\<close> of the library \<^verbatim>\<open>@segment/fql\<close> is the parameter
  \<open>lx\<close>. \<open>parse_source\<close> is the expression \<^verbatim>\<open>parse(normalize(lex(fql).tokens))\<close>
  and \<open>parseFql_try\<close> the whole \<^verbatim>\<open>try\<close> block. Everything thrown inside it is
  caught, also the \<^verbatim>\<open>TypeError\<close> of reading \<^verbatim>\<open>ast.type\<close> when \<^verbatim>\<open>parse\<close> returned
  \<^verbatim>\<open>undefined\<close>.
\<close>

definition parse_source ::
  "(string \<Rightarrow> error + token list) \<Rightarrow> (string \<Rightarrow> 'n) \<Rightarrow> ('n \<Rightarrow> string) \<Rightarrow> string
     \<Rightarrow> error + 'n condition" where
  "parse_source lx N S fql =
     (case lx fql of
        Inl e \<Rightarrow> Inl e
      | Inr tokens \<Rightarrow>
          (case normalize tokens of
             Inl e \<Rightarrow> Inl e
           | Inr normalized \<Rightarrow> parse N S normalized))"

definition parseFql_try ::
  "(string \<Rightarrow> error + token list) \<Rightarrow> (string \<Rightarrow> 'n) \<Rightarrow> ('n \<Rightarrow> string) \<Rightarrow> string
     \<Rightarrow> error + 'n condition" where
  "parseFql_try lx N S fql =
     (case parse_source lx N S fql of
        Inl e \<Rightarrow> Inl e
      | Inr ast \<Rightarrow>
          (case ast of
             Undefined \<Rightarrow> Inl (TypeError ''Cannot read property type of undefined'')
           | Group operator children \<Rightarrow> Inr ast
           | _ \<Rightarrow> Inr (Group ''and'' [ast])))"

definition parseFql ::
  "(string \<Rightarrow> error + token list) \<Rightarrow> (string \<Rightarrow> 'n) \<Rightarrow> ('n \<Rightarrow> string) \<Rightarrow> string
     \<Rightarrow> 'n fql_subscription" where
  "parseFql lx N S fql =
     (case parseFql_try lx N S fql of
        Inr ast \<Rightarrow> Cond ast
      | Inl error \<Rightarrow>
          ErrorCondition (if instanceofError error then error
                          else Error (''Error while parsing '' @ fql)))"

section \<open>The lexer\<close>

text \<open>
  Modelled from the spec: \<^verbatim>\<open>lex\<close> is imported from the library \<^verbatim>\<open>@segment/fql\<close>, which
  is not among the sources. Section 4.1 of the specification gives its contract: it
  recognizes double-quoted string literals (opaque until the matching unescaped quote),
  numeric literals, identifiers (letters, digits, underscore), a dot as a token of its
  own, the operators \<^verbatim>\<open>=\<close>, \<^verbatim>\<open>!=\<close>, \<^verbatim>\<open>>\<close>, \<^verbatim>\<open><\<close>, \<^verbatim>\<open>>=\<close>, \<^verbatim>\<open><=\<close>, the conditionals \<^verbatim>\<open>and\<close> and
  \<^verbatim>\<open>or\<close>, the negation \<^verbatim>\<open>!\<close>, parentheses, the comma and the end of the stream, and it
  fails on an unterminated string or an unrecognized character. The value of a string
  token keeps its quotes (\<^verbatim>\<open>getTokenValue\<close> strips them), and the stream ends with the
  token \<^verbatim>\<open>{ type: 'eos', value: 'eos' }\<close> that \<^verbatim>\<open>parse\<close> tests for. White space
  separates tokens. The lexer reads one character at a time; \<open>lex_mode\<close> is the lexeme
  in progress.
\<close>

datatype lex_mode =
    L_start
  | L_ident string
  | L_number string bool
  | L_operator char
  | L_string string bool

text \<open>Modelled from the spec: the characters of an identifier, digits apart.\<close>

definition is_letter :: "char \<Rightarrow> bool" where
  "is_letter c =
     (c \<in> set ''abcdefghijklmnopqrstuvwxyzABCDEFGHIJKLMNOPQRSTUVWXYZ_'')"

text \<open>Modelled from the spec: the digits of a numeric literal.\<close>

definition is_digit :: "char \<Rightarrow> bool" where
  "is_digit c = (c \<in> set ''0123456789'')"

text \<open>Modelled from the spec: white space between tokens.\<close>

definition is_space :: "char \<Rightarrow> bool" where
  "is_space c = (c \<in> set [CHR '' '', CHR 0x09, CHR 0x0A, CHR 0x0D])"

text \<open>Modelled from the spec: a finished word is a conditional or an identifier.\<close>

definition word_token :: "string \<Rightarrow> token" where
  "word_token w = (if w \<in> set [''and'', ''or''] then Token T_conditional w else Token T_ident w)"

text \<open>Modelled from the spec: the token of the lexeme in progress, when it ends.\<close>

fun lex_flush :: "lex_mode \<Rightarrow> error + token list" where
  "lex_flush L_start = Inr []"
| "lex_flush (L_ident w) = Inr [word_token w]"
| "lex_flush (L_number w dot) = Inr [Token T_number w]"
| "lex_flush (L_operator c) = Inr [Token T_operator [c]]"
| "lex_flush (L_string w escaped) = Inl (LexError ''unterminated string'')"

text \<open>Modelled from the spec: the first character of a lexeme.\<close>

definition lex_begin :: "char \<Rightarrow> error + (token list \<times> lex_mode)" where
  "lex_begin c =
     (if is_space c then Inr ([], L_start)
      else if is_letter c then Inr ([], L_ident [c])
      else if is_digit c then Inr ([], L_number [c] False)
      else if c = CHR 0x22 then Inr ([], L_string [c] False)
      else if c = CHR ''.'' then Inr ([Token T_dot ''.''], L_start)
      else if c = CHR ''('' then Inr ([Token T_parenleft ''(''], L_start)
      else if c = CHR '')'' then Inr ([Token T_parenright '')''], L_start)
      else if c = CHR '','' then Inr ([Token T_comma '',''], L_start)
      else if c = CHR ''='' then Inr ([Token T_operator ''=''], L_start)
      else if c \<in> set ''!<>'' then Inr ([], L_operator c)
      else Inl (LexError (''unrecognized character '' @ [c])))"

text \<open>Modelled from the spec: one character, in the mode of the lexeme in progress.\<close>

definition lex_step :: "lex_mode \<Rightarrow> char \<Rightarrow> error + (token list \<times> lex_mode)" where
  "lex_step m c =
     (case m of
        L_string w escaped \<Rightarrow>
          (if escaped then Inr ([], L_string (w @ [c]) False)
           else if c = CHR 0x5C then Inr ([], L_string (w @ [c]) True)
           else if c = CHR 0x22 then Inr ([Token T_string (w @ [c])], L_start)
           else Inr ([], L_string (w @ [c]) False))
      | L_ident w \<Rightarrow>
          (if is_letter c \<or> is_digit c then Inr ([], L_ident (w @ [c]))
           else (case lex_begin c of
                   Inl e \<Rightarrow> Inl e
                 | Inr (ts, m') \<Rightarrow> Inr (word_token w # ts, m')))
      | L_number w dot \<Rightarrow>
          (if is_digit c then Inr ([], L_number (w @ [c]) dot)
           else if c = CHR ''.'' \<and> \<not> dot then Inr ([], L_number (w @ [c]) True)
           else (case lex_begin c of
                   Inl e \<Rightarrow> Inl e
                 | Inr (ts, m') \<Rightarrow> Inr (Token T_number w # ts, m')))
      | L_operator d \<Rightarrow>
          (if c = CHR ''='' then Inr ([Token T_operator [d, c]], L_start)
           else (case lex_begin c of
                   Inl e \<Rightarrow> Inl e
                 | Inr (ts, m') \<Rightarrow> Inr (Token T_operator [d] # ts, m')))
      | L_start \<Rightarrow> lex_begin c)"

text \<open>Modelled from the spec: the characters in order, then the end of the stream.\<close>

fun lex_run :: "lex_mode \<Rightarrow> token list \<Rightarrow> string \<Rightarrow> error + token list" where
  "lex_run m tokens [] =
     (case lex_flush m of
        Inl e \<Rightarrow> Inl e
      | Inr ts \<Rightarrow> Inr (tokens @ ts @ [eos_token]))"
| "lex_run m tokens (c # cs) =
     (case lex_step m c of
        Inl e \<Rightarrow> Inl e
      | Inr (ts, m') \<Rightarrow> lex_run m' (tokens @ ts) cs)"

text \<open>Modelled from the spec: \<^verbatim>\<open>lex(source).tokens\<close>, or the error thrown.\<close>

definition lex :: "string \<Rightarrow> error + token list" where
  "lex source = lex_run L_start [] source"

section \<open>JSON values\<close>

text \<open>
  \<^verbatim>\<open>JSONObject\<close> and the values inside it. An object is the list of its entries in
  insertion order. A number is held as its canonical text, the result of
  \<^verbatim>\<open>String(n)\<close>, which identifies it. \<^verbatim>\<open>undefined\<close> is \<open>None\<close> of \<open>json option\<close>.
\<close>

datatype json =
    JNull
  | JBool bool
  | JNumber string
  | JString string
  | JArray "json list"
  | JObject "(string \<times> json) list"

type_synonym JSONObject = "(string \<times> json) list"

fun truthy :: "json option \<Rightarrow> bool" where
  "truthy None = False"
| "truthy (Some JNull) = False"
| "truthy (Some (JBool b)) = b"
| "truthy (Some (JNumber n)) = (n \<noteq> ''0'')"
| "truthy (Some (JString s)) = (s \<noteq> [])"
| "truthy (Some (JArray xs)) = True"
| "truthy (Some (JObject kvs)) = True"

text \<open>
  \<^verbatim>\<open>String(x)\<close>, which a template literal and a computed property key apply: an array
  joins its elements with commas, \<^verbatim>\<open>null\<close> elements as the empty text.
\<close>

fun String_json :: "json \<Rightarrow> string" and join_json :: "json list \<Rightarrow> string" where
  "String_json JNull = ''null''"
| "String_json (JBool b) = (if b then ''true'' else ''false'')"
| "String_json (JNumber n) = n"
| "String_json (JString s) = s"
| "String_json (JArray xs) = join_json xs"
| "String_json (JObject kvs) = ''[object Object]''"
| "join_json [] = []"
| "join_json [x] = (if x = JNull then [] else String_json x)"
| "join_json (x # y # ys) = (if x = JNull then [] else String_json x) @ '','' @ join_json (y # ys)"

definition String_value :: "json option \<Rightarrow> string" where
  "String_value v = (case v of None \<Rightarrow> ''undefined'' | Some j \<Rightarrow> String_json j)"

text \<open>
  \<^verbatim>\<open>x.key\<close> for one of the keys the dispatcher reads (\<^verbatim>\<open>partnerAction\<close>,
  \<^verbatim>\<open>subscribe\<close>, \<^verbatim>\<open>mapping\<close>) on a value that is not \<^verbatim>\<open>null\<close>: the entry of an
  object, \<^verbatim>\<open>undefined\<close> on anything else.
\<close>

fun property :: "json \<Rightarrow> string \<Rightarrow> json option" where
  "property (JObject kvs) k = map_of kvs k"
| "property _ k = None"

section \<open>The destination\<close>

datatype StepResult = StepResult (step_output: json)

record ExecuteInput =
  ei_cachedFields :: JSONObject
  ei_mapping :: json
  ei_payload :: json
  ei_settings :: JSONObject

record EventInput =
  in_event :: json
  in_mapping :: json
  in_settings :: JSONObject

record SubscriptionStats =
  st_destination :: string
  st_action :: "json option"
  st_subscribe :: "json option"
  st_state :: string
  st_input :: EventInput
  st_output :: "StepResult list option"

text \<open>
  \<^verbatim>\<open>action.execute(input)\<close> is a remote call: its outcome is a function of the input
  and of the state \<open>'w\<close> of the outside world, which it changes. A rejected promise is
  \<open>Inl\<close>.
\<close>

type_synonym 'w Action = "ExecuteInput \<Rightarrow> 'w \<Rightarrow> (error + StepResult list) \<times> 'w"

record 'x Request =
  rq_retry :: nat
  rq_timeout :: nat
  rq_user_agent :: "string option"
  rq_extension :: "'x option"

text \<open>
  The fields of \<^verbatim>\<open>Destination\<close> that the methods below read. \<open>d_settingsSchema\<close> is
  the step \<^verbatim>\<open>new Validate('settings', this.settingsSchema).executeStep\<close>, present when
  the schema is; \<open>d_testAuthentication\<close> is \<^verbatim>\<open>authentication.testAuthentication\<close>;
  both, and \<open>d_extendRequest\<close>, return \<open>Inl\<close> for what they throw.
\<close>

record ('x, 'w) Destination =
  d_name :: string
  d_settingsSchema :: "(ExecuteInput \<Rightarrow> error + unit) option"
  d_testAuthentication :: "('x Request \<Rightarrow> JSONObject \<Rightarrow> error + unit) option"
  d_extendRequest :: "(ExecuteInput \<Rightarrow> error + 'x) option"
  d_actions :: "string \<rightharpoonup> 'w Action"

text \<open>
  What the module imports: the lexer and the number conversions of the parser, the
  evaluator \<^verbatim>\<open>validate\<close> of the subscriptions package, and \<^verbatim>\<open>JSON.parse\<close>.
\<close>

record 'n Imports =
  i_lex :: "string \<Rightarrow> error + token list"
  i_Number :: "string \<Rightarrow> 'n"
  i_String :: "'n \<Rightarrow> string"
  i_validate :: "'n fql_subscription \<Rightarrow> json \<Rightarrow> bool"
  i_JSON_parse :: "string \<Rightarrow> error + json"

text \<open>The \<^verbatim>\<open>context\<close> object and the request options that \<^verbatim>\<open>testAuthentication\<close> builds.\<close>

definition test_context :: "JSONObject \<Rightarrow> ExecuteInput" where
  "test_context settings =
     \<lparr>ei_cachedFields = [], ei_mapping = JObject [], ei_payload = JObject [],
      ei_settings = settings\<rparr>"

definition test_request :: "'x Request" where
  "test_request = \<lparr>rq_retry = 0, rq_timeout = 3000, rq_user_agent = None, rq_extension = None\<rparr>"

text \<open>
  The first two steps of \<^verbatim>\<open>testAuthentication\<close>: the validation of the settings
  against the schema, when there is one, and the request with the destination's
  extension, when there is one.
\<close>

definition validate_settings :: "('x, 'w) Destination \<Rightarrow> JSONObject \<Rightarrow> error + unit" where
  "validate_settings d settings =
     (case d_settingsSchema d of
        None \<Rightarrow> Inr ()
      | Some executeStep \<Rightarrow> executeStep (test_context settings))"

definition extend_test_request :: "('x, 'w) Destination \<Rightarrow> JSONObject \<Rightarrow> error + 'x Request" where
  "extend_test_request d settings =
     (case d_extendRequest d of
        None \<Rightarrow> Inr test_request
      | Some ext \<Rightarrow>
          (case ext (test_context settings) of
             Inl e \<Rightarrow> Inl e
           | Inr x \<Rightarrow> Inr (test_request\<lparr>rq_extension := Some x\<rparr>)))"

text \<open>
  \<^verbatim>\<open>testAuthentication\<close>. The validation step and \<^verbatim>\<open>extendRequest\<close> run outside the
  \<^verbatim>\<open>try\<close> block; only the call of \<^verbatim>\<open>authentication.testAuthentication\<close> is inside.
\<close>

definition testAuthentication :: "('x, 'w) Destination \<Rightarrow> JSONObject \<Rightarrow> error + unit" where
  "testAuthentication d settings =
     (case validate_settings d settings of
        Inl e \<Rightarrow> Inl e
      | Inr _ \<Rightarrow>
          (case d_testAuthentication d of
             None \<Rightarrow> Inr ()
           | Some test \<Rightarrow>
               (case extend_test_request d settings of
                  Inl e \<Rightarrow> Inl e
                | Inr request \<Rightarrow>
                    (case test request settings of
                       Inl e \<Rightarrow> Inl (Error ''Credentials are invalid'')
                     | Inr _ \<Rightarrow> Inr ()))))"

text \<open>\<^verbatim>\<open>s.replace(pattern, replacement)\<close> with a string pattern: the first occurrence.\<close>

fun replace_first :: "string \<Rightarrow> string \<Rightarrow> string \<Rightarrow> string" where
  "replace_first pat rep [] = (if pat = [] then rep else [])"
| "replace_first pat rep (c # cs) =
     (if startsWith pat (c # cs) then rep @ drop (length pat) (c # cs)
      else c # replace_first pat rep cs)"

record Response =
  rs_status :: nat
  rs_ok :: bool
  rs_error :: "string option"
  rs_fields :: "(string \<times> string) list option"

text \<open>
  The \<^verbatim>\<open>try\<close>/\<^verbatim>\<open>catch\<close> of the \<^verbatim>\<open>/test-credentials\<close> handler, after the destination
  has been found.
\<close>

definition test_credentials :: "('x, 'w) Destination \<Rightarrow> JSONObject \<Rightarrow> Response" where
  "test_credentials destinationDefinition settings =
     (case testAuthentication destinationDefinition settings of
        Inr _ \<Rightarrow> \<lparr>rs_status = 200, rs_ok = True, rs_error = None, rs_fields = None\<rparr>
      | Inl error \<Rightarrow>
          if error_name error = ''AggregateAjvError'' then
            \<lparr>rs_status = 200, rs_ok = False, rs_error = Some ''Credentials are invalid'',
             rs_fields = Some (foldl (\<lambda>fields (path, msg).
                                        AList.update (replace_first ''$.'' [] path) msg fields)
                                 [] (case error of AggregateAjvError fs \<Rightarrow> fs | _ \<Rightarrow> []))\<rparr>
          else
            \<lparr>rs_status = 200, rs_ok = False, rs_error = Some (error_message error),
             rs_fields = None\<rparr>)"

section \<open>The subscription dispatcher\<close>

text \<open>
  \<^verbatim>\<open>executeAction\<close>. \<^verbatim>\<open>this.actions\<close> starts as the plain object \<^verbatim>\<open>{}\<close>: a slug that
  names a property of \<^verbatim>\<open>Object.prototype\<close> finds a value without an \<^verbatim>\<open>execute\<close>
  method.
\<close>

definition executeAction ::
  "('x, 'w) Destination \<Rightarrow> json option \<Rightarrow> EventInput \<Rightarrow> 'w \<Rightarrow> (error + StepResult list) \<times> 'w" where
  "executeAction d actionSlug input w =
     (case d_actions d (String_value actionSlug) of
        Some action \<Rightarrow>
          action \<lparr>ei_cachedFields = [], ei_mapping = in_mapping input,
                  ei_payload = in_event input, ei_settings = in_settings input\<rparr> w
      | None \<Rightarrow>
          if String_value actionSlug \<in> set object_prototype_keys
          then (Inl (TypeError ''action.execute is not a function''), w)
          else (Inl (BadRequest (''\"'' @ String_value actionSlug @ ''\" is not a valid action'')), w))"

text \<open>
  The \<^verbatim>\<open>try\<close> block of \<^verbatim>\<open>onSubscription\<close>: the settled promise, and the values of the
  locals \<open>state\<close> and \<open>results\<close> when the \<^verbatim>\<open>finally\<close> block runs.
\<close>

definition onSubscription_try ::
  "'n Imports \<Rightarrow> ('x, 'w) Destination \<Rightarrow> json \<Rightarrow> json option \<Rightarrow> EventInput \<Rightarrow> 'w
     \<Rightarrow> ((error + StepResult list) \<times> string \<times> StepResult list option) \<times> 'w" where
  "onSubscription_try imp d subscription actionSlug input w =
     (case property subscription ''subscribe'' of
        Some (JString subscribe) \<Rightarrow>
          (let isSubscribed =
                 i_validate imp (parseFql (i_lex imp) (i_Number imp) (i_String imp) subscribe)
                   (in_event input)
           in if \<not> isSubscribed then
                (let results = [StepResult (JString ''not subscribed'')]
                 in ((Inr results, ''pending'', Some results), w))
              else
                (case executeAction d actionSlug input w of
                   (Inl e, w') \<Rightarrow> ((Inl e, ''pending'', None), w')
                 | (Inr results, w') \<Rightarrow> ((Inr results, ''done'', Some results), w')))
      | _ \<Rightarrow>
          (let results = [StepResult (JString ''invalid subscription'')]
           in ((Inr results, ''pending'', Some results), w)))"

text \<open>The \<^verbatim>\<open>input\<close> object of \<^verbatim>\<open>onSubscription\<close>; \<^verbatim>\<open>subscription.mapping || {}\<close>.\<close>

definition subscription_input :: "json \<Rightarrow> json \<Rightarrow> JSONObject \<Rightarrow> EventInput" where
  "subscription_input subscription event settings =
     \<lparr>in_event = event,
      in_mapping = (case property subscription ''mapping'' of
                      Some m \<Rightarrow> if truthy (Some m) then m else JObject []
                    | None \<Rightarrow> JObject []),
      in_settings = settings\<rparr>"

text \<open>
  \<^verbatim>\<open>onSubscription\<close>. Reading \<^verbatim>\<open>subscription.partnerAction\<close> on \<^verbatim>\<open>null\<close> throws
  before the \<^verbatim>\<open>try\<close> block. The call \<^verbatim>\<open>onComplete?.(stats)\<close> of the \<^verbatim>\<open>finally\<close> block
  is returned as the list of the records passed to the observer: one when an observer
  was given (\<open>hasOnComplete\<close>), none otherwise. The field \<^verbatim>\<open>duration\<close>, a difference of
  two readings of the wall clock, is left out of the record.
\<close>

definition onSubscription ::
  "'n Imports \<Rightarrow> ('x, 'w) Destination \<Rightarrow> json \<Rightarrow> json \<Rightarrow> JSONObject \<Rightarrow> bool \<Rightarrow> 'w
     \<Rightarrow> ((error + StepResult list) \<times> SubscriptionStats list) \<times> 'w" where
  "onSubscription imp d subscription event settings hasOnComplete w =
     (if subscription = JNull
      then ((Inl (TypeError ''Cannot read property partnerAction of null''), []), w)
      else
        (let actionSlug = property subscription ''partnerAction'';
             input = subscription_input subscription event settings
         in case onSubscription_try imp d subscription actionSlug input w of
              ((outcome, state, results), w') \<Rightarrow>
                (let stats = \<lparr>st_destination = d_name d,
                              st_action = actionSlug,
                              st_subscribe = property subscription ''subscribe'',
                              st_state = (if state \<noteq> ''done'' then ''errored'' else ''done''),
                              st_input = input,
                              st_output = results\<rparr>
                 in ((outcome, if hasOnComplete then [stats] else []), w'))))"

definition getSubscriptions :: "'n Imports \<Rightarrow> JSONObject \<Rightarrow> error + json" where
  "getSubscriptions imp settings =
     (let subscription = map_of settings ''subscription'';
          subscriptions = map_of settings ''subscriptions''
      in if truthy subscription then
           Inr (JArray (case subscription of Some sub \<Rightarrow> [sub] | None \<Rightarrow> []))
         else
           (case subscriptions of
              Some (JString text) \<Rightarrow> i_JSON_parse imp text
            | Some (JArray xs) \<Rightarrow> Inr (JArray xs)
            | _ \<Rightarrow> Inr (JArray [])))"

text \<open>
  \<^verbatim>\<open>const { subcription, subscriptions, ...otherSettings } = settings\<close>: the rest
  pattern keeps every entry but the two keys named, spelled as in the source.
\<close>

definition getDestinationSettings :: "JSONObject \<Rightarrow> JSONObject" where
  "getDestinationSettings settings =
     filter (\<lambda>(k, v). k \<noteq> ''subcription'' \<and> k \<noteq> ''subscriptions'') settings"

text \<open>
  The test \<^verbatim>\<open>validate(parseFql(subscription.subscribe), event)\<close> of \<^verbatim>\<open>onSubscription\<close>,
  false when \<^verbatim>\<open>subscribe\<close> is not a string.
\<close>

definition isSubscribed :: "'n Imports \<Rightarrow> json \<Rightarrow> json \<Rightarrow> bool" where
  "isSubscribed imp subscription event =
     (case property subscription ''subscribe'' of
        Some (JString subscribe) \<Rightarrow>
          i_validate imp (parseFql (i_lex imp) (i_Number imp) (i_String imp) subscribe) event
      | _ \<Rightarrow> False)"

text \<open>
  Whether a call of \<^verbatim>\<open>onSubscription\<close> reaches \<^verbatim>\<open>await this.executeAction(...)\<close> with a
  pending promise: the subscription is not \<^verbatim>\<open>null\<close>, it matches the event, and its slug
  names an action of the destination. Every other call settles, and reports to the
  observer, before it returns to its caller: the throw on \<^verbatim>\<open>null\<close>, both early returns,
  and the synchronous throw of \<^verbatim>\<open>executeAction\<close> for a slug that names no action.
\<close>

definition awaits :: "'n Imports \<Rightarrow> ('x, 'w) Destination \<Rightarrow> json \<Rightarrow> json \<Rightarrow> bool" where
  "awaits imp d subscription event =
     (subscription \<noteq> JNull \<and> isSubscribed imp subscription event
      \<and> d_actions d (String_value (property subscription ''partnerAction'')) \<noteq> None)"

text \<open>
  \<^verbatim>\<open>subscriptions.map((subscription) => this.onSubscription(...))\<close> calls
  \<^verbatim>\<open>onSubscription\<close> for every element in the declared order, whatever happens to the
  others. A call that does not await settles during the map. A call that awaits is
  resumed when its action completes: \<open>completion i\<close> is the time at which the action of
  the subscription at position \<open>i\<close> completes, which the outside world decides, and
  actions that complete at the same time are resumed in the declared order.
  \<open>settlement_order\<close> lists the subscriptions, each with its position, in the order in
  which their promises settle and their reports reach the observer.
\<close>

definition settlement_order ::
  "'n Imports \<Rightarrow> ('x, 'w) Destination \<Rightarrow> json list \<Rightarrow> json \<Rightarrow> (nat \<Rightarrow> nat) \<Rightarrow> (nat \<times> json) list" where
  "settlement_order imp d subscriptions event completion =
     filter (\<lambda>(i, subscription). \<not> awaits imp d subscription event) (enumerate 0 subscriptions)
     @ sort_key (\<lambda>(i, subscription). completion i)
         (filter (\<lambda>(i, subscription). awaits imp d subscription event)
            (enumerate 0 subscriptions))"

text \<open>
  The calls of \<^verbatim>\<open>onSubscription\<close>, taken to their end in the order given: the outcome of
  each promise with its position, the records passed to the observer, and the state of
  the world, on which an action takes effect when it completes.
\<close>

fun onSubscriptions ::
  "'n Imports \<Rightarrow> ('x, 'w) Destination \<Rightarrow> (nat \<times> json) list \<Rightarrow> json \<Rightarrow> JSONObject \<Rightarrow> bool \<Rightarrow> 'w
     \<Rightarrow> ((nat \<times> (error + StepResult list)) list \<times> SubscriptionStats list) \<times> 'w" where
  "onSubscriptions imp d [] event settings hasOnComplete w = (([], []), w)"
| "onSubscriptions imp d ((i, subscription) # rest) event settings hasOnComplete w =
     (case onSubscription imp d subscription event settings hasOnComplete w of
        ((promise, calls), w1) \<Rightarrow>
          (case onSubscriptions imp d rest event settings hasOnComplete w1 of
             ((settled, calls'), w2) \<Rightarrow> (((i, promise) # settled, calls @ calls'), w2)))"

text \<open>
  \<^verbatim>\<open>Promise.all\<close> on the promises, given with their positions in the order in which they
  settle: rejected with the reason of the first promise to reject; fulfilled, when none
  rejects, with the values in the order of the positions.
\<close>

fun rejections :: "(nat \<times> (error + 'a)) list \<Rightarrow> error list" where
  "rejections [] = []"
| "rejections ((i, Inl e) # settled) = e # rejections settled"
| "rejections ((i, Inr v) # settled) = rejections settled"

fun fulfilments :: "(nat \<times> (error + 'a)) list \<Rightarrow> 'a list" where
  "fulfilments [] = []"
| "fulfilments ((i, Inl e) # settled) = fulfilments settled"
| "fulfilments ((i, Inr v) # settled) = v # fulfilments settled"

definition Promise_all :: "(nat \<times> (error + 'a)) list \<Rightarrow> error + 'a list" where
  "Promise_all settled =
     (case rejections settled of
        e # later \<Rightarrow> Inl e
      | [] \<Rightarrow> Inr (fulfilments (sort_key fst settled)))"

text \<open>
  \<^verbatim>\<open>onEvent\<close>. \<^verbatim>\<open>getSubscriptions\<close> casts what it found to an array; calling
  \<^verbatim>\<open>.map\<close> on anything else throws. The result pairs the settled promise of
  \<^verbatim>\<open>onEvent\<close> with the records passed to the observer by the time every subscription
  has settled, which for a rejected \<^verbatim>\<open>onEvent\<close> is later than its own settlement.
\<close>

definition onEvent ::
  "'n Imports \<Rightarrow> ('x, 'w) Destination \<Rightarrow> json \<Rightarrow> JSONObject \<Rightarrow> bool \<Rightarrow> (nat \<Rightarrow> nat) \<Rightarrow> 'w
     \<Rightarrow> ((error + StepResult list) \<times> SubscriptionStats list) \<times> 'w" where
  "onEvent imp d event settings hasOnComplete completion w =
     (case getSubscriptions imp settings of
        Inl e \<Rightarrow> ((Inl e, []), w)
      | Inr parsed \<Rightarrow>
          (let destinationSettings = getDestinationSettings settings
           in case parsed of
                JArray subscriptions \<Rightarrow>
                  (case onSubscriptions imp d
                          (settlement_order imp d subscriptions event completion)
                          event destinationSettings hasOnComplete w of
                     ((settled, calls), w') \<Rightarrow>
                       ((case Promise_all settled of
                           Inl e \<Rightarrow> Inl e
                         | Inr results \<Rightarrow> Inr (concat results),
                         calls), w'))
              | _ \<Rightarrow> ((Inl (TypeError ''subscriptions.map is not a function''), []), w)))"

section \<open>Predicates of the statements\<close>

text \<open>Every group node of a condition has more than one child.\<close>

fun groups_have_siblings :: "'n condition \<Rightarrow> bool" where
  "groups_have_siblings (Group operator children) =
     (length children > 1 \<and> list_all groups_have_siblings children)"
| "groups_have_siblings _ = True"

text \<open>
  Three consecutive tokens \<^verbatim>\<open>ident, dot, ident\<close>; a stream that contains such a triple;
  a stream that contains a dotted path of more than two segments, that is a triple
  followed at once by another \<^verbatim>\<open>dot, ident\<close>.
\<close>

definition is_triple :: "token \<Rightarrow> token \<Rightarrow> token \<Rightarrow> bool" where
  "is_triple a b c = (ttype a = T_ident \<and> ttype b = T_dot \<and> ttype c = T_ident)"

fun has_triple :: "token list \<Rightarrow> bool" where
  "has_triple (a # b # c # rest) = (is_triple a b c \<or> has_triple (b # c # rest))"
| "has_triple _ = False"

fun has_long_path :: "token list \<Rightarrow> bool" where
  "has_long_path (a # b # c # d # e # rest) =
     ((is_triple a b c \<and> ttype d = T_dot \<and> ttype e = T_ident)
      \<or> has_long_path (b # c # d # e # rest))"
| "has_long_path _ = False"

text \<open>
  One replacement of a triple, anywhere in the stream, by the identifier token whose
  value is the concatenation of the three values.
\<close>

inductive merge_step :: "token list \<Rightarrow> token list \<Rightarrow> bool" where
  here: "is_triple a b c
           \<Longrightarrow> merge_step (a # b # c # rest) (Token T_ident (tvalue a @ tvalue b @ tvalue c) # rest)"
| later: "merge_step ts ts' \<Longrightarrow> merge_step (a # ts) (a # ts')"

text \<open>
  The pass of \<open>normalize_loop\<close> written without the accumulator, for the proofs:
  \<open>normalize_rec_eq\<close> below shows that it computes \<open>normalize\<close>.
\<close>

definition cons_result :: "token \<Rightarrow> error + token list \<Rightarrow> error + token list" where
  "cons_result t r = (case r of Inl e \<Rightarrow> Inl e | Inr out \<Rightarrow> Inr (t # out))"

fun normalize_rec :: "token list \<Rightarrow> error + token list" where
  "normalize_rec [] = Inr []"
| "normalize_rec (t0 # ts) =
     (if ttype t0 = T_ident then
        (case ts of
           [] \<Rightarrow> Inl (TypeError ''Cannot read property type of undefined'')
         | t1 # ts1 \<Rightarrow>
             if ttype t1 = T_dot then
               (case ts1 of
                  [] \<Rightarrow> Inl (TypeError ''Cannot read property type of undefined'')
                | t2 # ts2 \<Rightarrow>
                    if ttype t2 = T_ident
                    then cons_result (Token T_ident (tvalue t0 @ tvalue t1 @ tvalue t2))
                           (normalize_rec ts2)
                    else cons_result t0 (normalize_rec ts))
             else cons_result t0 (normalize_rec ts))
      else cons_result t0 (normalize_rec ts))"


text \<open>
  The outcome and the report of the call of \<^verbatim>\<open>onSubscription\<close> that \<^verbatim>\<open>onEvent\<close> makes
  for the subscription at position \<open>i\<close>, when the call is completed in the state
  \<open>world i\<close> of the world.
\<close>

definition subscription_outcome ::
  "'n Imports \<Rightarrow> ('x, 'w) Destination \<Rightarrow> json list \<Rightarrow> json \<Rightarrow> JSONObject \<Rightarrow> bool \<Rightarrow> (nat \<Rightarrow> 'w)
     \<Rightarrow> nat \<Rightarrow> error + StepResult list" where
  "subscription_outcome imp d subscriptions event settings h world i =
     fst (fst (onSubscription imp d (subscriptions ! i) event (getDestinationSettings settings) h
                 (world i)))"

definition subscription_report ::
  "'n Imports \<Rightarrow> ('x, 'w) Destination \<Rightarrow> json list \<Rightarrow> json \<Rightarrow> JSONObject \<Rightarrow> bool \<Rightarrow> (nat \<Rightarrow> 'w)
     \<Rightarrow> nat \<Rightarrow> SubscriptionStats list" where
  "subscription_report imp d subscriptions event settings h world i =
     snd (fst (onSubscription imp d (subscriptions ! i) event (getDestinationSettings settings) h
                 (world i)))"

section \<open>An example destination\<close>

text \<open>
  The concrete inputs at which the theorems below are evaluated: imports whose evaluator
  accepts every filter that parses, a destination with the one action
  \<^verbatim>\<open>trackCustomer\<close>, whose execution succeeds and is counted in the state of the world,
  and two subscriptions.
\<close>

definition example_imports :: "string Imports" where
  "example_imports =
     \<lparr>i_lex = lex, i_Number = (\<lambda>text. text), i_String = (\<lambda>n. n),
      i_validate = (\<lambda>subscription event.
                      case subscription of Cond c \<Rightarrow> True | ErrorCondition e \<Rightarrow> False),
      i_JSON_parse = (\<lambda>text. Inl (SyntaxError ''Unexpected token in JSON''))\<rparr>"

definition example_destination :: "(unit, nat) Destination" where
  "example_destination =
     \<lparr>d_name = ''example'', d_settingsSchema = None, d_testAuthentication = None,
      d_extendRequest = None,
      d_actions = [''trackCustomer'' \<mapsto> (\<lambda>input w. (Inr [StepResult (JString ''sent'')], Suc w))]\<rparr>"

definition track_customer_subscription :: json where
  "track_customer_subscription =
     JObject [(''subscribe'', JString ''type = track''), (''partnerAction'', JString ''trackCustomer'')]"

definition unknown_action_subscription :: json where
  "unknown_action_subscription =
     JObject [(''subscribe'', JString ''type = track''), (''partnerAction'', JString ''nope'')]"

text \<open>
  Three variants for the credential test: the schema validation fails, the request
  extension throws, the remote test rejects.
\<close>

definition invalid_settings_destination :: "(unit, nat) Destination" where
  "invalid_settings_destination =
     example_destination
       \<lparr>d_settingsSchema :=
          Some (\<lambda>context. Inl (AggregateAjvError
                                 [(''$.apiKey'', ''The value at $.apiKey should be a string'')])),
        d_testAuthentication := Some (\<lambda>request settings. Inr ())\<rparr>"

definition failing_extension_destination :: "(unit, nat) Destination" where
  "failing_extension_destination =
     example_destination
       \<lparr>d_testAuthentication := Some (\<lambda>request settings. Inr ()),
        d_extendRequest := Some (\<lambda>context. Inl (Error ''apiKey is not defined''))\<rparr>"

definition rejecting_destination :: "(unit, nat) Destination" where
  "rejecting_destination =
     example_destination
       \<lparr>d_testAuthentication :=
          Some (\<lambda>request settings. Inl (Error ''Response code 401 (Unauthorized)''))\<rparr>"

section \<open>Evaluating the parser\<close>

lemmas parse_defs = parse_def parse_result_def parse_ident_def parse_negation_def
  parseFqlFunction_def push_call_nodes_def tokenToConditionType_def first_segment_def
  isFqlFunction_def strip_bag_prefix_def is_bag_path_def strip_quotes_def startsWith_def
  endsWith_def eos_token_def object_prototype_keys_def Let_def

lemma parseFql_of_parse:
  assumes "parse_source lx N S fql = Inr c"
  shows "parseFql lx N S fql =
           (case c of
              Undefined \<Rightarrow> ErrorCondition (TypeError ''Cannot read property type of undefined'')
            | Group operator children \<Rightarrow> Cond c
            | _ \<Rightarrow> Cond (Group ''and'' [c]))"
  using assms by (cases c) (simp_all add: parseFql_def parseFql_try_def)

lemma strip_quotes_literal: "strip_quotes (CHR 0x22 # body @ [CHR ''*'', CHR 0x22]) = body @ ''*''"
  by (simp add: strip_quotes_def startsWith_def endsWith_def butlast_append)

lemma endsWith_star_quote: "endsWith [CHR ''*'', CHR 0x22] (CHR 0x22 # body @ [CHR ''*'', CHR 0x22])"
  by (simp add: endsWith_def)

lemma parse_not_match_event:
  "parse N S [Token T_operator ''!'', Token T_ident ''match'', Token T_parenleft ''('',
              Token T_ident ''event'', Token T_comma '','',
              Token T_string (CHR 0x22 # body @ [CHR ''*'', CHR 0x22]),
              Token T_parenright '')'', eos_token]
     = Inr (Event ''not_starts_with'' body)"
  by (simp add: parse_def parse_result_def parse_negation_def isFqlFunction_def
        parseFqlFunction_def push_call_nodes_def is_bag_path_def startsWith_def
        eos_token_def Let_def strip_quotes_literal endsWith_star_quote)

lemma parse_match_event:
  "parse N S [Token T_ident ''match'', Token T_parenleft ''('',
              Token T_ident ''event'', Token T_comma '','',
              Token T_string (CHR 0x22 # body @ [CHR ''*'', CHR 0x22]),
              Token T_parenright '')'', eos_token]
     = Inr (Event ''starts_with'' body)"
  by (simp add: parse_def parse_result_def parse_ident_def tokenToConditionType_def first_segment_def
        object_prototype_keys_def isFqlFunction_def
        parseFqlFunction_def push_call_nodes_def is_bag_path_def startsWith_def
        eos_token_def Let_def strip_quotes_literal endsWith_star_quote)

section \<open>Claims about the FQL parser\<close>

text \<open>
  C3. The specification says that parsing the malformed input \<^verbatim>\<open>contains(event)\<close>
  (missing second argument) makes \<^verbatim>\<open>parseFql\<close> return an \<^verbatim>\<open>{error}\<close> result. On the
  code it does not: the lexer yields \<^verbatim>\<open>contains ( event ) eos\<close>, the "skip comma" shift
  of \<^verbatim>\<open>parseFqlFunction\<close> consumes the closing parenthesis, the end-of-stream token is
  taken as the value token, so the test for a missing second argument never fires and
  the result is an event condition with operator \<^verbatim>\<open>contains\<close> and value \<^verbatim>\<open>eos\<close>.
\<close>

theorem parseFql_contains_event:
  "lex ''contains(event)''
     = Inr [Token T_ident ''contains'', Token T_parenleft ''('', Token T_ident ''event'',
            Token T_parenright '')'', Token T_eos ''eos'']
   \<and> parseFql lex N S ''contains(event)'' = Cond (Group ''and'' [Event ''contains'' ''eos''])"
proof -
  let ?toks = "[Token T_ident ''contains'', Token T_parenleft ''('', Token T_ident ''event'',
                Token T_parenright '')'', Token T_eos ''eos'']"
  have l: "lex ''contains(event)'' = Inr ?toks" by code_simp
  have n: "normalize ?toks = Inr ?toks" by code_simp
  have p: "parse N S ?toks = Inr (Event ''contains'' ''eos'')"
    by (simp add: parse_defs)
  have s: "parse_source lex N S ''contains(event)'' = Inr (Event ''contains'' ''eos'')"
    by (simp add: parse_source_def l n p)
  show ?thesis
    using l parseFql_of_parse [OF s] by simp
qed


text \<open>
  C7. Parsing \<^verbatim>\<open>properties.age != null\<close> yields an event-property condition with name
  \<^verbatim>\<open>age\<close>, operator \<^verbatim>\<open>exists\<close> and no value; parsing \<^verbatim>\<open>properties.age = null\<close> yields
  the same shape with operator \<^verbatim>\<open>not_exists\<close>. \<^verbatim>\<open>parse\<close> returns the condition itself
  and \<^verbatim>\<open>parseFql\<close> returns it as the only child of its \<^verbatim>\<open>and\<close> group.
\<close>

theorem parse_null_comparison:
  "parse_source lex N S ''properties.age != null'' = Inr (EventProperty ''age'' ''exists'' None)
   \<and> parse_source lex N S ''properties.age = null'' = Inr (EventProperty ''age'' ''not_exists'' None)
   \<and> parseFql lex N S ''properties.age != null''
       = Cond (Group ''and'' [EventProperty ''age'' ''exists'' None])
   \<and> parseFql lex N S ''properties.age = null''
       = Cond (Group ''and'' [EventProperty ''age'' ''not_exists'' None])"
proof -
  let ?ne = "[Token T_ident ''properties'', Token T_dot ''.'', Token T_ident ''age'',
              Token T_operator ''!='', Token T_ident ''null'', Token T_eos ''eos'']"
  let ?ne' = "[Token T_ident ''properties.age'', Token T_operator ''!='',
               Token T_ident ''null'', Token T_eos ''eos'']"
  let ?eq = "[Token T_ident ''properties'', Token T_dot ''.'', Token T_ident ''age'',
              Token T_operator ''='', Token T_ident ''null'', Token T_eos ''eos'']"
  let ?eq' = "[Token T_ident ''properties.age'', Token T_operator ''='',
               Token T_ident ''null'', Token T_eos ''eos'']"
  have l1: "lex ''properties.age != null'' = Inr ?ne" by code_simp
  have n1: "normalize ?ne = Inr ?ne'" by code_simp
  have p1: "parse N S ?ne' = Inr (EventProperty ''age'' ''exists'' None)"
    by (simp add: parse_defs)
  have l2: "lex ''properties.age = null'' = Inr ?eq" by code_simp
  have n2: "normalize ?eq = Inr ?eq'" by code_simp
  have p2: "parse N S ?eq' = Inr (EventProperty ''age'' ''not_exists'' None)"
    by (simp add: parse_defs)
  have s1: "parse_source lex N S ''properties.age != null'' = Inr (EventProperty ''age'' ''exists'' None)"
    by (simp add: parse_source_def l1 n1 p1)
  have s2: "parse_source lex N S ''properties.age = null'' = Inr (EventProperty ''age'' ''not_exists'' None)"
    by (simp add: parse_source_def l2 n2 p2)
  show ?thesis
    using s1 s2 parseFql_of_parse [OF s1] parseFql_of_parse [OF s2] by simp
qed


text \<open>
  C8. Parsing \<^verbatim>\<open>!match(event, "foo*")\<close> yields an event condition with operator
  \<^verbatim>\<open>not_starts_with\<close> and value \<^verbatim>\<open>foo\<close>. For every literal body, a string literal
  ending in \<^verbatim>\<open>*\<close> selects the \<^verbatim>\<open>starts_with\<close> family with the trailing \<^verbatim>\<open>*\<close> trimmed,
  and a leading \<^verbatim>\<open>!\<close> before the call negates the operator.
\<close>

theorem parse_negated_match:
  \<open>parse_source lex N S ''!match(event, "foo*")'' = Inr (Event ''not_starts_with'' ''foo'')
   \<and> parseFql lex N S ''!match(event, "foo*")'' = Cond (Group ''and'' [Event ''not_starts_with'' ''foo''])
   \<and> parse N S [Token T_operator ''!'', Token T_ident ''match'', Token T_parenleft ''('',
                 Token T_ident ''event'', Token T_comma '','',
                 Token T_string (''"'' @ body @ ''*"''), Token T_parenright '')'', eos_token]
        = Inr (Event ''not_starts_with'' body)
   \<and> parse N S [Token T_ident ''match'', Token T_parenleft ''('',
                 Token T_ident ''event'', Token T_comma '','',
                 Token T_string (''"'' @ body @ ''*"''), Token T_parenright '')'', eos_token]
        = Inr (Event ''starts_with'' body)\<close>
proof -
  let ?toks = \<open>[Token T_operator ''!'', Token T_ident ''match'', Token T_parenleft ''('',
                Token T_ident ''event'', Token T_comma '','', Token T_string ''"foo*"'',
                Token T_parenright '')'', Token T_eos ''eos'']\<close>
  have l: \<open>lex ''!match(event, "foo*")'' = Inr ?toks\<close>
    by code_simp
  have n: "normalize ?toks = Inr ?toks"
    by code_simp
  have p: "parse N S ?toks = Inr (Event ''not_starts_with'' ''foo'')"
    using parse_not_match_event [of N S "''foo''"] by (simp add: eos_token_def)
  have src: \<open>parse_source lex N S ''!match(event, "foo*")'' = Inr (Event ''not_starts_with'' ''foo'')\<close>
    by (simp add: parse_source_def l n p)
  have whole: \<open>parseFql lex N S ''!match(event, "foo*")''
                 = Cond (Group ''and'' [Event ''not_starts_with'' ''foo''])\<close>
    using parseFql_of_parse [OF src] by simp
  show ?thesis
    using src whole parse_not_match_event [of N S body] parse_match_event [of N S body]
    by simp
qed



lemma lex_paren_track:
  \<open>lex ''(type="track")''
     = Inr [Token T_parenleft ''('', Token T_ident ''type'', Token T_operator ''='',
            Token T_string ''"track"'', Token T_parenright '')'', Token T_eos ''eos'']\<close>
  by code_simp

lemma normalize_paren_track:
  \<open>normalize [Token T_parenleft ''('', Token T_ident ''type'', Token T_operator ''='',
               Token T_string ''"track"'', Token T_parenright '')'', Token T_eos ''eos'']
     = Inr [Token T_parenleft ''('', Token T_ident ''type'', Token T_operator ''='',
            Token T_string ''"track"'', Token T_parenright '')'', Token T_eos ''eos'']\<close>
  by code_simp

lemma parse_loop_paren_track:
  \<open>parse_loop N S [] ''and''
       [Token T_parenleft ''('', Token T_ident ''type'', Token T_operator ''='',
        Token T_string ''"track"'', Token T_parenright '')'', Token T_eos ''eos'']
     = Inr ([EventType ''='' ''track''], ''and'')\<close>
  by (simp add: parse_defs)

lemma parse_source_paren_track:
  \<open>parse_source lex N S ''(type="track")'' = Inr (EventType ''='' ''track'')\<close>
  by (simp add: parse_source_def lex_paren_track normalize_paren_track parse_defs)

text \<open>
  C4. The claim: a group condition is only constructed when a syntactic scope yields
  more than one sibling condition, and a source whose top-level scope yields exactly one
  condition, such as \<^verbatim>\<open>(type="track")\<close>, parses to that condition unwrapped. This holds
  for \<^verbatim>\<open>parse\<close> and fails for \<^verbatim>\<open>parseFql\<close>, which wraps every result that is not a
  group in a group with operator \<^verbatim>\<open>and\<close> and that one child.
\<close>

theorem parseFql_single_is_wrapped:
  \<open>parseFql lex (\<lambda>s::string. s) (\<lambda>s::string. s) ''(type="track")''
     = Cond (Group ''and'' [EventType ''='' ''track''])
   \<and> parseFql lex (\<lambda>s::string. s) (\<lambda>s::string. s) ''(type="track")''
       \<noteq> Cond (EventType ''='' ''track'')\<close>
  using parseFql_of_parse [OF parse_source_paren_track [of "\<lambda>s::string. s" "\<lambda>s::string. s"]]
  by simp


lemma push_call_nodes_siblings:
  "list_all groups_have_siblings nodes
     \<Longrightarrow> list_all groups_have_siblings (push_call_nodes nodes nameToken operator val)"
  by (simp add: push_call_nodes_def Let_def)

lemma parseFqlFunction_siblings:
  assumes "parseFqlFunction N S name nodes tokens negate = Inr (nodes', tokens')"
    and "list_all groups_have_siblings nodes"
  shows "list_all groups_have_siblings nodes'"
  using assms
  by (auto simp: parseFqlFunction_def Let_def push_call_nodes_siblings
           split: if_splits prod.splits option.splits)

lemma parse_ident_siblings:
  assumes "parse_ident N S token nodes tokens = Inr (nodes', tokens')"
    and "list_all groups_have_siblings nodes"
  shows "list_all groups_have_siblings nodes'"
  using assms
  by (auto simp: parse_ident_def Let_def
           split: if_splits prod.splits option.splits sum.splits
           dest: parseFqlFunction_siblings)

lemma parse_negation_siblings:
  assumes "parse_negation N S nodes tokens = Inr (nodes', tokens')"
    and "list_all groups_have_siblings nodes"
  shows "list_all groups_have_siblings nodes'"
  using assms
  by (auto simp: parse_negation_def split: list.splits if_splits
           dest: parseFqlFunction_siblings)

lemma parse_result_siblings:
  "list_all groups_have_siblings nodes \<Longrightarrow> groups_have_siblings (parse_result nodes operator)"
  by (cases nodes) (auto simp: parse_result_def)

lemma parse_loop_siblings:
  "parse_loop N S nodes operator tokens = Inr (nodes', operator')
     \<Longrightarrow> list_all groups_have_siblings nodes
     \<Longrightarrow> list_all groups_have_siblings nodes'"
proof (induction N S nodes operator tokens arbitrary: nodes' operator' rule: parse_loop.induct)
  case (1 N S nodes operator)
  then show ?case by simp
next
  case (2 N S nodes operator token tokens)
  show ?case
  proof (cases "ttype token")
    case T_ident
    with "2.prems" obtain nodes1 tokens1 where
      a: "parse_ident N S token nodes tokens = Inr (nodes1, tokens1)"
      and b: "parse_loop N S nodes1 operator tokens1 = Inr (nodes', operator')"
      by (auto split: sum.splits)
    have "ttype token \<noteq> T_eos" using T_ident by simp
    from "2.IH"(1) [OF this T_ident a refl b] parse_ident_siblings [OF a "2.prems"(2)]
    show ?thesis .
  next
    case T_operator
    show ?thesis
    proof (cases "tvalue token = ''!''")
      case True
      with T_operator "2.prems" obtain nodes1 tokens1 where
        a: "parse_negation N S nodes tokens = Inr (nodes1, tokens1)"
        and b: "parse_loop N S nodes1 operator tokens1 = Inr (nodes', operator')"
        by (auto split: sum.splits)
      have c: "ttype token \<noteq> T_eos" "ttype token \<noteq> T_ident"
        "ttype token = T_operator \<and> tvalue token = ''!''"
        using T_operator True by simp_all
      from "2.IH"(2) [OF c a refl b] parse_negation_siblings [OF a "2.prems"(2)]
      show ?thesis .
    next
      case False
      have c: "ttype token \<noteq> T_eos" "ttype token \<noteq> T_ident"
        "\<not> (ttype token = T_operator \<and> tvalue token = ''!'')"
        "ttype token \<noteq> T_parenleft" "ttype token \<noteq> T_conditional"
        using T_operator False by simp_all
      from "2.prems"(1) c have "parse_loop N S nodes operator tokens = Inr (nodes', operator')"
        by simp
      from "2.IH"(6) [OF c this "2.prems"(2)] show ?thesis .
    qed
  next
    case T_parenleft
    with "2.prems" obtain groupTokens tokens1 gnodes goperator where
      a: "collect_group [] tokens = Inr (groupTokens, tokens1)"
      and b: "parse_loop N S [] ''and'' (groupTokens @ [eos_token]) = Inr (gnodes, goperator)"
      and c: "parse_loop N S (nodes @ [parse_result gnodes goperator]) operator tokens1
                = Inr (nodes', operator')"
      by (auto split: sum.splits)
    have d: "ttype token \<noteq> T_eos" "ttype token \<noteq> T_ident"
      "\<not> (ttype token = T_operator \<and> tvalue token = ''!'')"
      using T_parenleft by simp_all
    have "list_all groups_have_siblings gnodes"
      using "2.IH"(3) [OF d T_parenleft a refl b] by simp
    then have "list_all groups_have_siblings (nodes @ [parse_result gnodes goperator])"
      using "2.prems"(2) parse_result_siblings by simp
    from "2.IH"(4) [OF d T_parenleft a refl b refl c this] show ?thesis .
  next
    case T_conditional
    with "2.prems" "2.IH"(5) show ?thesis by simp
  next
    case T_eos
    with "2.prems" show ?thesis by simp
  qed (use "2.prems" "2.IH"(6) in simp_all)
qed

text \<open>
  C4, as amended. Inside \<^verbatim>\<open>parse\<close> every group node has more than one child, and a
  scope that yields exactly one condition returns it unwrapped. Whenever \<^verbatim>\<open>parseFql\<close>
  returns a condition, it is a group: either one that \<^verbatim>\<open>parse\<close> built, with more than
  one child, or the \<^verbatim>\<open>and\<close> group that \<^verbatim>\<open>parseFql\<close> puts around the single condition
  that \<^verbatim>\<open>parse\<close> returned.
\<close>

theorem parse_groups_have_siblings:
  "(parse N S tokens = Inr c \<longrightarrow> groups_have_siblings c)
   \<and> (parse_loop N S [] ''and'' tokens = Inr ([c], operator) \<longrightarrow> parse N S tokens = Inr c)
   \<and> (parseFql lx N S fql = Cond ast \<longrightarrow>
        (\<exists>operator children.
           ast = Group operator children
           \<and> (length children > 1
              \<or> (operator = ''and''
                  \<and> (\<exists>leaf. children = [leaf] \<and> parse_source lx N S fql = Inr leaf
                        \<and> (\<forall>op cs. leaf \<noteq> Group op cs))))))"
proof (intro conjI impI)
  assume "parse N S tokens = Inr c"
  then obtain nodes operator where
    "parse_loop N S [] ''and'' tokens = Inr (nodes, operator)" "c = parse_result nodes operator"
    by (auto simp: parse_def split: sum.splits)
  then show "groups_have_siblings c"
    using parse_loop_siblings [of N S "[]" "''and''" tokens nodes operator] parse_result_siblings
    by simp
next
  assume "parse_loop N S [] ''and'' tokens = Inr ([c], operator)"
  then show "parse N S tokens = Inr c"
    by (simp add: parse_def parse_result_def)
next
  assume a: "parseFql lx N S fql = Cond ast"
  then obtain c where c: "parse_source lx N S fql = Inr c"
    by (auto simp: parseFql_def parseFql_try_def split: sum.splits)
  then obtain tokens where "parse N S tokens = Inr c"
    by (auto simp: parse_source_def split: sum.splits)
  then obtain nodes operator where
    "parse_loop N S [] ''and'' tokens = Inr (nodes, operator)" "c = parse_result nodes operator"
    by (auto simp: parse_def split: sum.splits)
  then have g: "groups_have_siblings c"
    using parse_loop_siblings [of N S "[]" "''and''" tokens nodes operator] parse_result_siblings
    by simp
  from a c g show "\<exists>operator children.
           ast = Group operator children
           \<and> (length children > 1
              \<or> (operator = ''and''
                  \<and> (\<exists>leaf. children = [leaf] \<and> parse_source lx N S fql = Inr leaf
                        \<and> (\<forall>op cs. leaf \<noteq> Group op cs))))"
    by (cases c) (auto simp: parseFql_def parseFql_try_def)
qed

theorem parse_groups_have_siblings_witness:
  \<open>parse (\<lambda>s::string. s) (\<lambda>s::string. s)
      [Token T_parenleft ''('', Token T_ident ''type'', Token T_operator ''='',
       Token T_string ''"track"'', Token T_parenright '')'', Token T_eos ''eos'']
     = Inr (EventType ''='' ''track'')
   \<and> groups_have_siblings (EventType ''='' ''track'' :: string condition)
   \<and> parse_loop (\<lambda>s::string. s) (\<lambda>s::string. s) [] ''and''
        [Token T_parenleft ''('', Token T_ident ''type'', Token T_operator ''='',
         Token T_string ''"track"'', Token T_parenright '')'', Token T_eos ''eos'']
       = Inr ([EventType ''='' ''track''], ''and'')
   \<and> parseFql lex (\<lambda>s::string. s) (\<lambda>s::string. s) ''(type="track")''
       = Cond (Group ''and'' [EventType ''='' ''track''])
   \<and> parse_source lex (\<lambda>s::string. s) (\<lambda>s::string. s) ''(type="track")''
       = Inr (EventType ''='' ''track'')\<close>
  using parse_groups_have_siblings
          [of "\<lambda>s::string. s" "\<lambda>s::string. s"
              \<open>[Token T_parenleft ''('', Token T_ident ''type'', Token T_operator ''='',
                Token T_string ''"track"'', Token T_parenright '')'', Token T_eos ''eos'']\<close>
              "EventType ''='' ''track''" "''and''" lex \<open>''(type="track")''\<close>
              "Group ''and'' [EventType ''='' ''track'']"]
        parse_loop_paren_track [of "\<lambda>s::string. s" "\<lambda>s::string. s"]
        parseFql_of_parse [OF parse_source_paren_track [of "\<lambda>s::string. s" "\<lambda>s::string. s"]]
  by simp


text \<open>
  C10. For every source whose parse yields zero condition nodes (the empty string, a
  source made of \<^verbatim>\<open>and\<close>/\<^verbatim>\<open>or\<close> tokens only), \<^verbatim>\<open>parseFql\<close> returns an error
  condition: \<^verbatim>\<open>parse\<close> returns \<^verbatim>\<open>undefined\<close>, reading its \<^verbatim>\<open>type\<close> throws inside the
  \<^verbatim>\<open>try\<close> block, and the \<^verbatim>\<open>catch\<close> clause returns \<^verbatim>\<open>{ error }\<close>.
\<close>

theorem parseFql_no_nodes_is_error:
  assumes "lx fql = Inr tokens"
    and "normalize tokens = Inr normalized"
    and "parse_loop N S [] ''and'' normalized = Inr ([], operator)"
  shows "parseFql lx N S fql
           = ErrorCondition (TypeError ''Cannot read property type of undefined'')"
  using assms
  by (simp add: parseFql_def parseFql_try_def parse_source_def parse_def parse_result_def)


theorem parseFql_no_nodes_is_error_witness:
  "lex [] = Inr [Token T_eos ''eos'']
   \<and> normalize [Token T_eos ''eos''] = Inr [Token T_eos ''eos'']
   \<and> parse_loop (\<lambda>s::string. s) (\<lambda>s::string. s) [] ''and'' [Token T_eos ''eos'']
       = Inr ([], ''and'')
   \<and> parseFql lex (\<lambda>s::string. s) (\<lambda>s::string. s) []
       = ErrorCondition (TypeError ''Cannot read property type of undefined'')
   \<and> lex ''and or''
       = Inr [Token T_conditional ''and'', Token T_conditional ''or'', Token T_eos ''eos'']
   \<and> normalize [Token T_conditional ''and'', Token T_conditional ''or'', Token T_eos ''eos'']
       = Inr [Token T_conditional ''and'', Token T_conditional ''or'', Token T_eos ''eos'']
   \<and> parse_loop (\<lambda>s::string. s) (\<lambda>s::string. s) [] ''and''
        [Token T_conditional ''and'', Token T_conditional ''or'', Token T_eos ''eos'']
       = Inr ([], ''or'')
   \<and> parseFql lex (\<lambda>s::string. s) (\<lambda>s::string. s) ''and or''
       = ErrorCondition (TypeError ''Cannot read property type of undefined'')"
proof -
  have l1: "lex [] = Inr [Token T_eos ''eos'']" by code_simp
  have n1: "normalize [Token T_eos ''eos''] = Inr [Token T_eos ''eos'']" by code_simp
  have p1: "parse_loop (\<lambda>s::string. s) (\<lambda>s::string. s) [] ''and'' [Token T_eos ''eos'']
              = Inr ([], ''and'')"
    by simp
  have l2: "lex ''and or''
              = Inr [Token T_conditional ''and'', Token T_conditional ''or'', Token T_eos ''eos'']"
    by code_simp
  have n2: "normalize [Token T_conditional ''and'', Token T_conditional ''or'', Token T_eos ''eos'']
              = Inr [Token T_conditional ''and'', Token T_conditional ''or'', Token T_eos ''eos'']"
    by code_simp
  have p2: "parse_loop (\<lambda>s::string. s) (\<lambda>s::string. s) [] ''and''
              [Token T_conditional ''and'', Token T_conditional ''or'', Token T_eos ''eos'']
              = Inr ([], ''or'')"
    by simp
  show ?thesis
    using parseFql_no_nodes_is_error [where lx = lex, OF l1 n1 p1]
          parseFql_no_nodes_is_error [where lx = lex, OF l2 n2 p2] l1 n1 p1 l2 n2 p2
    by simp
qed


section \<open>Claims about the normalizer\<close>

lemma append_result_snoc:
  "(case cons_result x r of Inl e \<Rightarrow> Inl e | Inr out \<Rightarrow> Inr (acc @ out))
     = (case r of Inl e \<Rightarrow> Inl e | Inr out \<Rightarrow> Inr ((acc @ [x]) @ out))"
  by (cases r) (simp_all add: cons_result_def)

lemma normalize_loop_rec:
  "normalize_loop acc ts
     = (case normalize_rec ts of Inl e \<Rightarrow> Inl e | Inr out \<Rightarrow> Inr (acc @ out))"
proof (induction ts arbitrary: acc rule: normalize_rec.induct)
  case 1
  then show ?case by simp
next
  case (2 t0 ts)
  show ?case
  proof (cases "ttype t0 = T_ident")
    case False
    then show ?thesis
      using "2.IH"(4) [OF False, of "acc @ [t0]"] by (simp only: normalize_loop.simps normalize_rec.simps append_result_snoc if_False)
  next
    case True
    show ?thesis
    proof (cases ts)
      case Nil
      with True show ?thesis by simp
    next
      case (Cons t1 ts1)
      show ?thesis
      proof (cases "ttype t1 = T_dot")
        case False
        then show ?thesis
          using "2.IH"(3) [OF True Cons False, of "acc @ [t0]"] True Cons
          by (simp add: append_result_snoc)
      next
        case dot: True
        show ?thesis
        proof (cases ts1)
          case Nil
          with True Cons dot show ?thesis by simp
        next
          case inner: (Cons t2 ts2)
          show ?thesis
          proof (cases "ttype t2 = T_ident")
            case False
            then show ?thesis
              using "2.IH"(2) [OF True Cons dot inner False, of "acc @ [t0]"] True Cons dot inner
              by (simp add: append_result_snoc)
          next
            case ident2: True
            then show ?thesis
              using "2.IH"(1) [OF True Cons dot inner ident2,
                  of "acc @ [Token T_ident (tvalue t0 @ tvalue t1 @ tvalue t2)]"]
                True Cons dot inner
              by (simp add: append_result_snoc)
          qed
        qed
      qed
    qed
  qed
qed

lemma normalize_rec_eq: "normalize ts = normalize_rec ts"
  using normalize_loop_rec [of "[]" ts]
  by (cases "normalize_rec ts") (simp_all add: normalize_def)

lemma normalize_rec_merge:
  "is_triple t0 t1 t2
     \<Longrightarrow> normalize_rec (t0 # t1 # t2 # ts)
           = cons_result (Token T_ident (tvalue t0 @ tvalue t1 @ tvalue t2)) (normalize_rec ts)"
  by (subst normalize_rec.simps) (simp add: is_triple_def)

lemma normalize_rec_copy:
  assumes "\<not> (\<exists>t1 t2 ts2. ts = t1 # t2 # ts2 \<and> is_triple t0 t1 t2)"
    and "normalize_rec (t0 # ts) = Inr out"
  shows "normalize_rec (t0 # ts) = cons_result t0 (normalize_rec ts)"
proof (cases ts)
  case Nil
  with assms(2) show ?thesis by (simp split: if_splits)
next
  case outer: (Cons t1 ts1)
  show ?thesis
  proof (cases ts1)
    case Nil
    with assms(2) outer show ?thesis
      by (subst normalize_rec.simps, subst (asm) normalize_rec.simps) (simp split: if_splits)
  next
    case (Cons t2 ts2)
    with assms(1) outer have "\<not> is_triple t0 t1 t2" by simp
    with outer Cons show ?thesis
      by (subst normalize_rec.simps) (simp add: is_triple_def)
  qed
qed

lemma normalize_rec_Inr_cases:
  assumes "normalize_rec (t0 # ts) = Inr out"
  obtains (merge) t1 t2 ts2 out' where
      "ts = t1 # t2 # ts2" "is_triple t0 t1 t2" "normalize_rec ts2 = Inr out'"
      "out = Token T_ident (tvalue t0 @ tvalue t1 @ tvalue t2) # out'"
  | (copy) out' where
      "\<not> (\<exists>t1 t2 ts2. ts = t1 # t2 # ts2 \<and> is_triple t0 t1 t2)"
      "normalize_rec ts = Inr out'" "out = t0 # out'"
proof (cases "\<exists>t1 t2 ts2. ts = t1 # t2 # ts2 \<and> is_triple t0 t1 t2")
  case True
  then obtain t1 t2 ts2 where a: "ts = t1 # t2 # ts2" "is_triple t0 t1 t2" by blast
  with assms normalize_rec_merge [OF a(2), of ts2]
  obtain out' where "normalize_rec ts2 = Inr out'"
    "out = Token T_ident (tvalue t0 @ tvalue t1 @ tvalue t2) # out'"
    by (cases "normalize_rec ts2") (simp_all add: cons_result_def)
  with a merge show ?thesis by blast
next
  case False
  with assms normalize_rec_copy [OF False assms]
  obtain out' where "normalize_rec ts = Inr out'" "out = t0 # out'"
    by (cases "normalize_rec ts") (simp_all add: cons_result_def)
  with False copy show ?thesis by blast
qed

lemma normalize_rec_head:
  assumes "normalize_rec (t # ts) = Inr out"
  shows "\<exists>h rest. out = h # rest \<and> ttype h = ttype t"
  using assms by (cases rule: normalize_rec_Inr_cases) (auto simp: is_triple_def)

lemma normalize_rec_copy_total:
  assumes "\<not> (\<exists>t1 t2 ts2. ts = t1 # t2 # ts2 \<and> is_triple t0 t1 t2)"
    and "\<not> (ttype t0 = T_ident \<and> (ts = [] \<or> (\<exists>t1. ts = [t1] \<and> ttype t1 = T_dot)))"
  shows "normalize_rec (t0 # ts) = cons_result t0 (normalize_rec ts)"
proof (cases ts)
  case Nil
  with assms(2) show ?thesis by simp
next
  case outer: (Cons t1 ts1)
  show ?thesis
  proof (cases ts1)
    case Nil
    with assms(2) outer show ?thesis
      by (subst normalize_rec.simps) simp
  next
    case (Cons t2 ts2)
    with assms(1) outer have "\<not> is_triple t0 t1 t2" by simp
    with outer Cons show ?thesis
      by (subst normalize_rec.simps) (simp add: is_triple_def)
  qed
qed

lemma normalize_rec_total:
  "ts = [] \<or> (ttype (last ts) \<noteq> T_ident \<and> ttype (last ts) \<noteq> T_dot)
     \<Longrightarrow> \<exists>out. normalize_rec ts = Inr out"
proof (induction ts rule: length_induct)
  case (1 ts)
  show ?case
  proof (cases ts)
    case Nil
    then show ?thesis by simp
  next
    case (Cons t0 rest)
    show ?thesis
    proof (cases "\<exists>t1 t2 ts2. rest = t1 # t2 # ts2 \<and> is_triple t0 t1 t2")
      case True
      then obtain t1 t2 ts2 where a: "rest = t1 # t2 # ts2" "is_triple t0 t1 t2" by blast
      have "ts2 = [] \<or> (ttype (last ts2) \<noteq> T_ident \<and> ttype (last ts2) \<noteq> T_dot)"
        using "1.prems" Cons a(1) by (cases ts2) auto
      moreover have "length ts2 < length ts" using Cons a(1) by simp
      ultimately obtain out where "normalize_rec ts2 = Inr out"
        using "1.IH" by blast
      then show ?thesis
        using Cons a normalize_rec_merge [OF a(2), of ts2] by (simp add: cons_result_def)
    next
      case False
      have ok: "\<not> (ttype t0 = T_ident \<and> (rest = [] \<or> (\<exists>t1. rest = [t1] \<and> ttype t1 = T_dot)))"
        using "1.prems" Cons by auto
      have "rest = [] \<or> (ttype (last rest) \<noteq> T_ident \<and> ttype (last rest) \<noteq> T_dot)"
        using "1.prems" Cons by (cases rest) auto
      moreover have "length rest < length ts" using Cons by simp
      ultimately obtain out where "normalize_rec rest = Inr out"
        using "1.IH" by blast
      then show ?thesis
        using Cons normalize_rec_copy_total [OF False ok] by (simp add: cons_result_def)
    qed
  qed
qed

lemma merge_steps_Cons:
  "merge_step\<^sup>*\<^sup>* ts ts' \<Longrightarrow> merge_step\<^sup>*\<^sup>* (a # ts) (a # ts')"
  by (induction rule: rtranclp_induct) (auto intro: merge_step.later rtranclp.rtrancl_into_rtrancl)

lemma normalize_rec_merges:
  "normalize_rec ts = Inr out \<Longrightarrow> merge_step\<^sup>*\<^sup>* ts out"
proof (induction ts arbitrary: out rule: length_induct)
  case (1 ts)
  show ?case
  proof (cases ts)
    case Nil
    with "1.prems" show ?thesis by simp
  next
    case (Cons t0 rest)
    from "1.prems" [unfolded Cons] show ?thesis
    proof (cases rule: normalize_rec_Inr_cases)
      case (merge t1 t2 ts2 out')
      let ?m = "Token T_ident (tvalue t0 @ tvalue t1 @ tvalue t2)"
      have "merge_step ts (?m # ts2)"
        unfolding Cons merge(1) by (rule merge_step.here [OF merge(2)])
      moreover have "merge_step\<^sup>*\<^sup>* ts2 out'"
        using "1.IH" merge(1,3) Cons by simp
      ultimately show ?thesis
        using merge(4) merge_steps_Cons [of ts2 out' ?m] by simp
    next
      case (copy out')
      have "merge_step\<^sup>*\<^sup>* rest out'"
        using "1.IH" copy(2) Cons by simp
      then show ?thesis
        using copy(3) Cons merge_steps_Cons by simp
    qed
  qed
qed

lemma has_long_path_tl: "\<not> has_long_path (t # ts) \<Longrightarrow> \<not> has_long_path ts"
  by (cases ts rule: has_long_path.cases) auto

lemma normalize_rec_no_triple:
  "normalize_rec ts = Inr out \<Longrightarrow> \<not> has_long_path ts \<Longrightarrow> \<not> has_triple out"
proof (induction ts arbitrary: out rule: length_induct)
  case (1 ts)
  show ?case
  proof (cases ts)
    case Nil
    with "1.prems" show ?thesis by simp
  next
    case (Cons t0 rest)
    from "1.prems"(1) [unfolded Cons] show ?thesis
    proof (cases rule: normalize_rec_Inr_cases)
      case (merge t1 t2 ts2 out')
      have nl: "\<not> has_long_path ts2"
        using "1.prems"(2) Cons merge(1) has_long_path_tl by blast
      have a: "\<not> has_triple out'"
        using "1.IH" [rule_format, OF _ merge(3) nl] Cons merge(1) by simp
      have "\<not> (\<exists>d e r. out' = d # e # r \<and> ttype d = T_dot \<and> ttype e = T_ident)"
      proof
        assume "\<exists>d e r. out' = d # e # r \<and> ttype d = T_dot \<and> ttype e = T_ident"
        then obtain d e r where o: "out' = d # e # r" "ttype d = T_dot" "ttype e = T_ident"
          by blast
        from merge(3) o(1) obtain t3 ts3 where t3: "ts2 = t3 # ts3"
          by (cases ts2) auto
        from normalize_rec_head [OF merge(3) [unfolded t3]] o have ty3: "ttype t3 = T_dot"
          by auto
        from merge(3) [unfolded t3] have r3: "normalize_rec ts3 = Inr (e # r)"
        proof (cases rule: normalize_rec_Inr_cases)
          case (merge u1 u2 us out'')
          with ty3 show ?thesis by (simp add: is_triple_def)
        next
          case (copy out'')
          with o(1) show ?thesis by simp
        qed
        then obtain t4 ts4 where t4: "ts3 = t4 # ts4"
          by (cases ts3) auto
        from normalize_rec_head [OF r3 [unfolded t4]] o(3) have "ttype t4 = T_ident"
          by auto
        with ty3 merge(1,2) t3 t4 Cons have "has_long_path ts" by simp
        with "1.prems"(2) show False by simp
      qed
      with a merge(4) show ?thesis
        by (cases out' rule: has_triple.cases) (auto simp: is_triple_def)
    next
      case (copy out')
      have nl: "\<not> has_long_path rest"
        using "1.prems"(2) Cons has_long_path_tl by blast
      have a: "\<not> has_triple out'"
        using "1.IH" [rule_format, OF _ copy(2) nl] Cons by simp
      have "\<not> (\<exists>d e r. out' = d # e # r \<and> is_triple t0 d e)"
      proof
        assume "\<exists>d e r. out' = d # e # r \<and> is_triple t0 d e"
        then obtain d e r where o: "out' = d # e # r" "is_triple t0 d e"
          by blast
        from copy(2) o(1) obtain t1 ts1 where t1: "rest = t1 # ts1"
          by (cases rest) auto
        from normalize_rec_head [OF copy(2) [unfolded t1]] o have ty1: "ttype t1 = T_dot"
          by (auto simp: is_triple_def)
        from copy(2) [unfolded t1] have r1: "normalize_rec ts1 = Inr (e # r)"
        proof (cases rule: normalize_rec_Inr_cases)
          case (merge u1 u2 us out'')
          with ty1 show ?thesis by (simp add: is_triple_def)
        next
          case (copy out'')
          with o(1) show ?thesis by simp
        qed
        then obtain t2 ts2 where t2: "ts1 = t2 # ts2"
          by (cases ts1) auto
        from normalize_rec_head [OF r1 [unfolded t2]] o(2) have "ttype t2 = T_ident"
          by (auto simp: is_triple_def)
        with ty1 o(2) have "is_triple t0 t1 t2" by (simp add: is_triple_def)
        with copy(1) t1 t2 show False by blast
      qed
      with a copy(3) show ?thesis
        by (cases out' rule: has_triple.cases) auto
    qed
  qed
qed

text \<open>
  C5. The claim: for every token stream the normalizer replaces each \<^verbatim>\<open>ident, dot, ident\<close>
  triple by one identifier token, repeating until no triple remains, so that the output
  contains no triple and a three-segment path such as \<^verbatim>\<open>properties.a.b\<close> collapses to one
  token. The code makes a single pass and resumes behind a merged triple, so the merged
  token is never the start of another triple: \<^verbatim>\<open>properties.a.b\<close> becomes the three
  tokens \<^verbatim>\<open>properties.a\<close>, \<^verbatim>\<open>.\<close>, \<^verbatim>\<open>b\<close>, which form a triple.
\<close>

theorem normalize_three_segment_path:
  "lex ''properties.a.b''
     = Inr [Token T_ident ''properties'', Token T_dot ''.'', Token T_ident ''a'',
            Token T_dot ''.'', Token T_ident ''b'', Token T_eos ''eos'']
   \<and> normalize [Token T_ident ''properties'', Token T_dot ''.'', Token T_ident ''a'',
                Token T_dot ''.'', Token T_ident ''b'', Token T_eos ''eos'']
       = Inr [Token T_ident ''properties.a'', Token T_dot ''.'', Token T_ident ''b'',
              Token T_eos ''eos'']
   \<and> has_triple [Token T_ident ''properties.a'', Token T_dot ''.'', Token T_ident ''b'',
                 Token T_eos ''eos'']"
proof -
  have "lex ''properties.a.b''
          = Inr [Token T_ident ''properties'', Token T_dot ''.'', Token T_ident ''a'',
                 Token T_dot ''.'', Token T_ident ''b'', Token T_eos ''eos'']"
    by code_simp
  moreover have "normalize [Token T_ident ''properties'', Token T_dot ''.'', Token T_ident ''a'',
                   Token T_dot ''.'', Token T_ident ''b'', Token T_eos ''eos'']
          = Inr [Token T_ident ''properties.a'', Token T_dot ''.'', Token T_ident ''b'',
                 Token T_eos ''eos'']"
    by code_simp
  ultimately show ?thesis by (simp add: is_triple_def)
qed


text \<open>
  C5, as amended. For every token stream that ends with the end-of-stream token and has
  no dotted path of more than two segments, the normalizer returns a stream that is
  reached from the input by replacing \<^verbatim>\<open>ident, dot, ident\<close> triples with one identifier
  token each, whose value is the concatenation of the three, and that contains no such
  triple.
\<close>

theorem normalize_merges_short_paths:
  assumes "tokens \<noteq> []" and "ttype (last tokens) = T_eos" and "\<not> has_long_path tokens"
  shows "\<exists>out. normalize tokens = Inr out \<and> merge_step\<^sup>*\<^sup>* tokens out \<and> \<not> has_triple out"
proof -
  from assms(1,2) obtain out where out: "normalize_rec tokens = Inr out"
    using normalize_rec_total [of tokens] by auto
  then show ?thesis
    using normalize_rec_merges [OF out] normalize_rec_no_triple [OF out assms(3)]
    by (simp add: normalize_rec_eq)
qed

theorem normalize_merges_short_paths_witness:
  "[Token T_ident ''properties'', Token T_dot ''.'', Token T_ident ''age'',
    Token T_operator ''!='', Token T_ident ''null'', Token T_eos ''eos''] \<noteq> []
   \<and> ttype (last [Token T_ident ''properties'', Token T_dot ''.'', Token T_ident ''age'',
                  Token T_operator ''!='', Token T_ident ''null'', Token T_eos ''eos'']) = T_eos
   \<and> \<not> has_long_path [Token T_ident ''properties'', Token T_dot ''.'', Token T_ident ''age'',
                       Token T_operator ''!='', Token T_ident ''null'', Token T_eos ''eos'']
   \<and> normalize [Token T_ident ''properties'', Token T_dot ''.'', Token T_ident ''age'',
                Token T_operator ''!='', Token T_ident ''null'', Token T_eos ''eos'']
       = Inr [Token T_ident ''properties.age'', Token T_operator ''!='', Token T_ident ''null'',
              Token T_eos ''eos'']
   \<and> merge_step\<^sup>*\<^sup>*
         [Token T_ident ''properties'', Token T_dot ''.'', Token T_ident ''age'',
          Token T_operator ''!='', Token T_ident ''null'', Token T_eos ''eos'']
         [Token T_ident ''properties.age'', Token T_operator ''!='', Token T_ident ''null'',
          Token T_eos ''eos'']
   \<and> \<not> has_triple [Token T_ident ''properties.age'', Token T_operator ''!='',
                    Token T_ident ''null'', Token T_eos ''eos'']"
proof -
  let ?ts = "[Token T_ident ''properties'', Token T_dot ''.'', Token T_ident ''age'',
              Token T_operator ''!='', Token T_ident ''null'', Token T_eos ''eos'']"
  have a: "?ts \<noteq> []" by simp
  have b: "ttype (last ?ts) = T_eos" by simp
  have c: "\<not> has_long_path ?ts" by (simp add: is_triple_def)
  have n: "normalize ?ts = Inr [Token T_ident ''properties.age'', Token T_operator ''!='',
                              Token T_ident ''null'', Token T_eos ''eos'']"
    by code_simp
  from normalize_merges_short_paths [OF a b c] n a b c show ?thesis
    by auto
qed


section \<open>Claims about the dispatcher\<close>

lemmas dispatch_defs = onEvent_def getSubscriptions_def getDestinationSettings_def
  onSubscription_def onSubscription_try_def subscription_input_def executeAction_def
  String_value_def example_imports_def example_destination_def
  track_customer_subscription_def unknown_action_subscription_def object_prototype_keys_def
  settlement_order_def awaits_def isSubscribed_def Promise_all_def enumerate_eq_zip
  subscription_outcome_def subscription_report_def

lemma parseFql_type_track:
  "parseFql lex (\<lambda>text. text) (\<lambda>n. n) ''type = track''
     = Cond (Group ''and'' [EventType ''='' ''track''])"
proof -
  have l: "lex ''type = track''
             = Inr [Token T_ident ''type'', Token T_operator ''='', Token T_ident ''track'',
                    Token T_eos ''eos'']"
    by code_simp
  have n: "normalize [Token T_ident ''type'', Token T_operator ''='', Token T_ident ''track'',
                      Token T_eos ''eos'']
             = Inr [Token T_ident ''type'', Token T_operator ''='', Token T_ident ''track'',
                    Token T_eos ''eos'']"
    by code_simp
  have "parse_source lex (\<lambda>text. text) (\<lambda>n. n) ''type = track''
          = Inr (EventType ''='' ''track'' :: string condition)"
    by (simp add: parse_source_def l n parse_defs)
  from parseFql_of_parse [OF this] show ?thesis by simp
qed

text \<open>
  C1. The claim: \<^verbatim>\<open>onEvent\<close> waits for all subscriptions to settle and returns the
  flattened results, and a failure thrown in one subscription's chain, such as an
  unknown \<^verbatim>\<open>partnerAction\<close> slug, does not prevent the results of the siblings from
  being returned. On the code the sibling runs to completion, but \<^verbatim>\<open>Promise.all\<close>
  rejects, so \<^verbatim>\<open>onEvent\<close> rejects and returns no result at all.
\<close>

theorem onEvent_unknown_action_rejects:
  "onEvent example_imports example_destination (JObject [(''type'', JString ''track'')])
     [(''subscriptions'', JArray [unknown_action_subscription, track_customer_subscription])]
     False (\<lambda>i. i) 0
   = ((Inl (BadRequest ''\"nope\" is not a valid action''), []), 1)"
  by (simp add: dispatch_defs parseFql_type_track)

text \<open>
  A call of \<^verbatim>\<open>onSubscription\<close> reports once when it has an observer and a subscription
  that is not \<^verbatim>\<open>null\<close>; a call that does not await leaves the world as it is and has
  the same outcome in every state of the world.
\<close>

lemma onSubscription_report_length:
  "length (snd (fst (onSubscription imp d subscription event settings h w)))
     = (if h \<and> subscription \<noteq> JNull then 1 else 0)"
  by (simp add: onSubscription_def Let_def split: prod.splits)

lemma onSubscription_without_await:
  assumes "\<not> awaits imp d subscription event"
  shows "snd (onSubscription imp d subscription event settings h w) = w"
    and "fst (onSubscription imp d subscription event settings h w)
           = fst (onSubscription imp d subscription event settings h w0)"
  using assms
  by (auto simp: onSubscription_def onSubscription_try_def executeAction_def awaits_def
        isSubscribed_def subscription_input_def Let_def
      split: option.splits json.splits prod.splits if_splits)

lemma onSubscriptions_trace:
  assumes "distinct (map fst ps)"
  shows "\<exists>world. fst (onSubscriptions imp d ps event settings h w)
           = (map (\<lambda>(i, s). (i, fst (fst (onSubscription imp d s event settings h (world i))))) ps,
              concat (map (\<lambda>(i, s). snd (fst (onSubscription imp d s event settings h (world i)))) ps))"
  using assms
proof (induction ps arbitrary: w)
  case Nil
  then show ?case by simp
next
  case (Cons p ps)
  obtain i s where p: "p = (i, s)" by (cases p)
  obtain promise calls w1 where o: "onSubscription imp d s event settings h w = ((promise, calls), w1)"
    by (metis prod.exhaust)
  obtain settled calls' w2 where
    r: "onSubscriptions imp d ps event settings h w1 = ((settled, calls'), w2)"
    by (metis prod.exhaust)
  from Cons.prems p have d: "distinct (map fst ps)" and fresh: "i \<notin> fst ` set ps" by auto
  from Cons.IH [OF d, of w1] r obtain world where
    s1: "settled = map (\<lambda>(i, s). (i, fst (fst (onSubscription imp d s event settings h (world i))))) ps"
    and c1: "calls' = concat (map (\<lambda>(i, s). snd (fst (onSubscription imp d s event settings h (world i)))) ps)"
    by auto
  let ?world = "world(i := w)"
  let ?O = "\<lambda>(i, s). (i, fst (fst (onSubscription imp d s event settings h (?world i))))"
  let ?C = "\<lambda>(i, s). snd (fst (onSubscription imp d s event settings h (?world i)))"
  have ne: "\<And>j t. (j, t) \<in> set ps \<Longrightarrow> j \<noteq> i"
    using fresh by force
  have m1: "map ?O ps = settled"
    unfolding s1 by (rule map_cong) (auto dest: ne)
  have m2: "map ?C ps = map (\<lambda>(i, s). snd (fst (onSubscription imp d s event settings h (world i)))) ps"
    by (rule map_cong) (auto dest: ne)
  have h1: "?O p = (i, promise)" and h2: "?C p = calls"
    using o p by simp_all
  have "fst (onSubscriptions imp d (p # ps) event settings h w)
          = ((i, promise) # settled, calls @ calls')"
    using o r p by simp
  also have "\<dots> = (map ?O (p # ps), concat (map ?C (p # ps)))"
    by (simp only: list.map concat.simps h1 h2 m1 m2 c1)
  finally show ?case by blast
qed

lemma settlement_order_set:
  "set (settlement_order imp d subscriptions event completion) = set (enumerate 0 subscriptions)"
  by (auto simp: settlement_order_def)

lemma settlement_order_distinct:
  "distinct (map fst (settlement_order imp d subscriptions event completion))"
proof -
  have "distinct (settlement_order imp d subscriptions event completion)"
    by (auto simp: settlement_order_def distinct_enumerate)
  moreover have "inj_on fst (set (enumerate 0 subscriptions))"
    using distinct_map [of fst "enumerate 0 subscriptions"] by simp
  ultimately show ?thesis
    by (simp add: distinct_map settlement_order_set)
qed

lemma settlement_order_positions:
  "set (map fst (settlement_order imp d subscriptions event completion))
     = {0..<length subscriptions}"
proof -
  have "fst ` set (enumerate 0 subscriptions) = set (map fst (enumerate 0 subscriptions))"
    by (simp only: set_map)
  also have "\<dots> = {0..<length subscriptions}"
    by (simp add: map_fst_enumerate del: set_map)
  finally show ?thesis
    by (simp add: settlement_order_set)
qed

lemma settlement_order_nth:
  "(i, s) \<in> set (settlement_order imp d subscriptions event completion)
     \<Longrightarrow> i < length subscriptions \<and> s = subscriptions ! i"
  by (auto simp: settlement_order_set in_set_enumerate_eq)

lemma insort_key_tagged:
  "insort_key fst (i, f i) (map (\<lambda>j. (j, f j)) xs) = map (\<lambda>j. (j, f j)) (insort i xs)"
  by (induction xs) auto

lemma sort_key_tagged:
  "sort_key fst (map (\<lambda>j. (j, f j)) xs) = map (\<lambda>j. (j, f j)) (sort xs)"
  by (induction xs) (simp_all add: insort_key_tagged)

lemma sort_positions:
  assumes "distinct xs" and "set xs = {0..<n}"
  shows "sort xs = [0..<n]"
  by (rule sorted_distinct_set_unique) (use assms in simp_all)

lemma rejections_empty:
  "(\<forall>j \<in> set xs. \<not> isl (f j)) \<Longrightarrow> rejections (map (\<lambda>j. (j, f j)) xs) = []"
proof (induction xs)
  case Nil
  then show ?case by simp
next
  case (Cons x xs)
  then show ?case by (cases "f x") simp_all
qed

lemma fulfilments_tagged:
  "(\<forall>j \<in> set xs. \<not> isl (f j)) \<Longrightarrow> fulfilments (map (\<lambda>j. (j, f j)) xs) = map (\<lambda>j. projr (f j)) xs"
proof (induction xs)
  case Nil
  then show ?case by simp
next
  case (Cons x xs)
  then show ?case by (cases "f x") simp_all
qed

lemma rejections_first:
  "rejections settled = e # later \<Longrightarrow> \<exists>i. (i, Inl e) \<in> set settled"
  by (induction settled rule: rejections.induct) auto

lemma rejections_nonempty:
  "(i, Inl e) \<in> set settled \<Longrightarrow> rejections settled \<noteq> []"
  by (induction settled rule: rejections.induct) auto

lemma nonnull_count:
  assumes "distinct order" and "set order = {0..<length (subscriptions :: json list)}"
  shows "sum_list (map (\<lambda>i. if subscriptions ! i \<noteq> JNull then 1 else 0) order)
           = length (filter (\<lambda>s. s \<noteq> JNull) subscriptions)"
proof -
  have "sum_list (map (\<lambda>i. if subscriptions ! i \<noteq> JNull then 1 else 0) order)
          = (\<Sum>i\<in>{0..<length subscriptions}. if subscriptions ! i \<noteq> JNull then 1 else (0::nat))"
    using assms by (simp add: sum_list_distinct_conv_sum_set)
  also have "\<dots> = card {i. i < length subscriptions \<and> subscriptions ! i \<noteq> JNull}"
  proof -
    have "{i \<in> {0..<length subscriptions}. subscriptions ! i \<noteq> JNull}
            = {i. i < length subscriptions \<and> subscriptions ! i \<noteq> JNull}"
      by auto
    then show ?thesis
      by (simp add: sum.If_cases Int_def)
  qed
  also have "\<dots> = length (filter (\<lambda>s. s \<noteq> JNull) subscriptions)"
    by (simp add: length_filter_conv_card)
  finally show ?thesis .
qed

text \<open>
  C1, as amended. \<^verbatim>\<open>onEvent\<close> calls \<^verbatim>\<open>onSubscription\<close> for every subscription, and
  each call runs to its end whatever happens to the others: the records that reach the
  observer are the reports of these calls, one call for each position, in the order in
  which they settle, that is one record for every subscription that is not \<^verbatim>\<open>null\<close>.
  When the chain of every subscription completes, \<^verbatim>\<open>onEvent\<close> returns the flattened
  results in the declared order. When the chain of some subscription throws,
  \<^verbatim>\<open>onEvent\<close> rejects with the failure of one of these calls and returns no results.
\<close>

theorem onEvent_all_or_error:
  assumes "getSubscriptions imp settings = Inr (JArray subscriptions)"
  shows "\<exists>world.
           distinct (map fst (settlement_order imp d subscriptions event completion))
         \<and> set (map fst (settlement_order imp d subscriptions event completion))
             = {0..<length subscriptions}
         \<and> snd (fst (onEvent imp d event settings h completion w))
             = concat (map (subscription_report imp d subscriptions event settings h world)
                         (map fst (settlement_order imp d subscriptions event completion)))
         \<and> (h \<longrightarrow> length (snd (fst (onEvent imp d event settings h completion w)))
                     = length (filter (\<lambda>s. s \<noteq> JNull) subscriptions))
         \<and> ((\<forall>i < length subscriptions.
                 \<not> isl (subscription_outcome imp d subscriptions event settings h world i))
              \<longrightarrow> fst (fst (onEvent imp d event settings h completion w))
                    = Inr (concat (map (\<lambda>i. projr (subscription_outcome imp d subscriptions event
                                                      settings h world i))
                                     [0..<length subscriptions])))
         \<and> (\<forall>i < length subscriptions.
               isl (subscription_outcome imp d subscriptions event settings h world i)
               \<longrightarrow> (\<exists>j < length subscriptions.
                      isl (subscription_outcome imp d subscriptions event settings h world j)
                      \<and> fst (fst (onEvent imp d event settings h completion w))
                          = subscription_outcome imp d subscriptions event settings h world j))"
proof -
  let ?ps = "settlement_order imp d subscriptions event completion"
  let ?ds = "getDestinationSettings settings"
  let ?n = "length subscriptions"
  have dist: "distinct (map fst ?ps)" by (rule settlement_order_distinct)
  have pos: "set (map fst ?ps) = {0..<?n}" by (rule settlement_order_positions)
  obtain settled calls w' where
    run: "onSubscriptions imp d ?ps event ?ds h w = ((settled, calls), w')"
    by (metis prod.exhaust)
  from onSubscriptions_trace [OF dist, of imp d event ?ds h w] run obtain world where
    s0: "settled = map (\<lambda>(i, s). (i, fst (fst (onSubscription imp d s event ?ds h (world i))))) ?ps"
    and c0: "calls = concat (map (\<lambda>(i, s). snd (fst (onSubscription imp d s event ?ds h (world i)))) ?ps)"
    by auto
  let ?out = "subscription_outcome imp d subscriptions event settings h world"
  let ?rep = "subscription_report imp d subscriptions event settings h world"
  have s1: "settled = map (\<lambda>i. (i, ?out i)) (map fst ?ps)"
    unfolding s0 map_map
    by (rule map_cong) (auto simp: subscription_outcome_def dest: settlement_order_nth)
  have c1: "calls = concat (map ?rep (map fst ?ps))"
    unfolding c0 map_map
    by (rule arg_cong [where f = concat], rule map_cong)
       (auto simp: subscription_report_def dest: settlement_order_nth)
  have ev: "onEvent imp d event settings h completion w
              = ((case Promise_all settled of Inl e \<Rightarrow> Inl e | Inr results \<Rightarrow> Inr (concat results),
                  calls), w')"
    using assms run by (simp add: onEvent_def)
  have len: "length calls = length (filter (\<lambda>s. s \<noteq> JNull) subscriptions)" if h
  proof -
    have "length calls = sum_list (map (\<lambda>i. length (?rep i)) (map fst ?ps))"
      unfolding c1 by (simp add: length_concat comp_def)
    also have "\<dots> = sum_list (map (\<lambda>i. if subscriptions ! i \<noteq> JNull then 1 else 0) (map fst ?ps))"
      using that by (simp add: subscription_report_def onSubscription_report_length)
    also have "\<dots> = length (filter (\<lambda>s. s \<noteq> JNull) subscriptions)"
      by (rule nonnull_count [OF dist pos])
    finally show ?thesis .
  qed
  have all: "fst (fst (onEvent imp d event settings h completion w))
               = Inr (concat (map (\<lambda>i. projr (?out i)) [0..<?n]))"
    if "\<forall>i < ?n. \<not> isl (?out i)"
  proof -
    have a: "\<forall>j \<in> set (map fst ?ps). \<not> isl (?out j)"
      using that pos by simp
    have b: "\<forall>j \<in> set [0..<?n]. \<not> isl (?out j)"
      using that by simp
    have "rejections settled = []"
      unfolding s1 by (rule rejections_empty [OF a])
    moreover have "sort_key fst settled = map (\<lambda>i. (i, ?out i)) [0..<?n]"
      unfolding s1 by (simp only: sort_key_tagged sort_positions [OF dist pos])
    ultimately have "Promise_all settled = Inr (map (\<lambda>i. projr (?out i)) [0..<?n])"
      using fulfilments_tagged [OF b] by (simp add: Promise_all_def)
    then show ?thesis by (simp add: ev)
  qed
  have some: "\<exists>j < ?n. isl (?out j)
                \<and> fst (fst (onEvent imp d event settings h completion w)) = ?out j"
    if "i < ?n" "isl (?out i)" for i
  proof -
    from that obtain e where e: "?out i = Inl e" by (cases "?out i") auto
    from that(1) pos have "i \<in> set (map fst ?ps)" by simp
    with e have "(i, Inl e) \<in> set settled"
      unfolding s1 by force
    from rejections_nonempty [OF this] obtain e' later where
      r: "rejections settled = e' # later" by (cases "rejections settled") auto
    from rejections_first [OF r] obtain j where "(j, Inl e') \<in> set settled" by blast
    then have j: "j \<in> set (map fst ?ps)" "?out j = Inl e'"
      unfolding s1 by auto
    from j(1) pos have "j < ?n" by simp
    moreover have "fst (fst (onEvent imp d event settings h completion w)) = Inl e'"
      using r by (simp add: ev Promise_all_def)
    ultimately show ?thesis using j(2) by auto
  qed
  have rep: "snd (fst (onEvent imp d event settings h completion w))
               = concat (map ?rep (map fst ?ps))"
    using c1 by (simp add: ev)
  have len': "h \<longrightarrow> length (snd (fst (onEvent imp d event settings h completion w)))
                     = length (filter (\<lambda>s. s \<noteq> JNull) subscriptions)"
    unfolding ev using len by simp
  from dist pos rep len' all some show ?thesis
    by blast
qed


theorem onEvent_all_or_error_witness:
  "getSubscriptions example_imports
     [(''subscriptions'', JArray [unknown_action_subscription, track_customer_subscription])]
     = Inr (JArray [unknown_action_subscription, track_customer_subscription])
   \<and> (\<forall>world. isl (subscription_outcome example_imports example_destination
                       [unknown_action_subscription, track_customer_subscription]
                       (JObject [(''type'', JString ''track'')])
                       [(''subscriptions'',
                         JArray [unknown_action_subscription, track_customer_subscription])]
                       True world 0))
   \<and> fst (fst (onEvent example_imports example_destination
                   (JObject [(''type'', JString ''track'')])
                   [(''subscriptions'',
                     JArray [unknown_action_subscription, track_customer_subscription])]
                   True (\<lambda>i. i) 0))
       = Inl (BadRequest ''\"nope\" is not a valid action'')
   \<and> length (snd (fst (onEvent example_imports example_destination
                           (JObject [(''type'', JString ''track'')])
                           [(''subscriptions'',
                             JArray [unknown_action_subscription, track_customer_subscription])]
                           True (\<lambda>i. i) 0)))
       = 2
   \<and> getSubscriptions example_imports [(''subscriptions'', JArray [track_customer_subscription])]
       = Inr (JArray [track_customer_subscription])
   \<and> (\<forall>world. \<not> isl (subscription_outcome example_imports example_destination
                         [track_customer_subscription] (JObject [(''type'', JString ''track'')])
                         [(''subscriptions'', JArray [track_customer_subscription])]
                         True world 0))
   \<and> fst (fst (onEvent example_imports example_destination
                   (JObject [(''type'', JString ''track'')])
                   [(''subscriptions'', JArray [track_customer_subscription])]
                   True (\<lambda>i. i) 0))
       = Inr [StepResult (JString ''sent'')]"
proof -
  let ?ev = "JObject [(''type'', JString ''track'')]"
  let ?two = "[unknown_action_subscription, track_customer_subscription]"
  let ?one = "[track_customer_subscription]"
  let ?s2 = "[(''subscriptions'', JArray ?two)]"
  let ?s1 = "[(''subscriptions'', JArray ?one)]"
  let ?out2 = "subscription_outcome example_imports example_destination ?two ?ev ?s2 True"
  let ?out1 = "subscription_outcome example_imports example_destination ?one ?ev ?s1 True"
  let ?run2 = "onEvent example_imports example_destination ?ev ?s2 True (\<lambda>i. i) (0::nat)"
  let ?run1 = "onEvent example_imports example_destination ?ev ?s1 True (\<lambda>i. i) (0::nat)"
  have g2: "getSubscriptions example_imports ?s2 = Inr (JArray ?two)"
    by (simp add: getSubscriptions_def)
  have g1: "getSubscriptions example_imports ?s1 = Inr (JArray ?one)"
    by (simp add: getSubscriptions_def)
  have o20: "\<And>world. ?out2 world 0 = Inl (BadRequest ''\"nope\" is not a valid action'')"
    by (simp add: dispatch_defs parseFql_type_track)
  have o21: "\<And>world. ?out2 world (Suc 0) = Inr [StepResult (JString ''sent'')]"
    by (simp add: dispatch_defs parseFql_type_track)
  have o10: "\<And>world. ?out1 world 0 = Inr [StepResult (JString ''sent'')]"
    by (simp add: dispatch_defs parseFql_type_track)
  have nn2: "length (filter (\<lambda>s. s \<noteq> JNull) ?two) = 2"
    by (simp add: track_customer_subscription_def unknown_action_subscription_def)
  from onEvent_all_or_error
         [where d = example_destination and event = ?ev and h = True and completion = "\<lambda>i. i"
            and w = "0::nat", OF g2]
  obtain world where
    len: "length (snd (fst ?run2)) = length (filter (\<lambda>s. s \<noteq> JNull) ?two)"
    and rej: "\<forall>i < length ?two. isl (?out2 world i)
                \<longrightarrow> (\<exists>j < length ?two. isl (?out2 world j) \<and> fst (fst ?run2) = ?out2 world j)"
    by blast
  have first: "0 < length ?two" "isl (?out2 world 0)"
    using o20 [of world] by simp_all
  from rej [rule_format, OF first] obtain j where
    j: "j < length ?two" "isl (?out2 world j)" "fst (fst ?run2) = ?out2 world j"
    by blast
  have "j = 0"
  proof (rule ccontr)
    assume "j \<noteq> 0"
    with j(1) have "j = Suc 0" by simp
    with j(2) o21 [of world] show False by simp
  qed
  with j(3) o20 [of world] have r2: "fst (fst ?run2) = Inl (BadRequest ''\"nope\" is not a valid action'')"
    by simp
  from onEvent_all_or_error
         [where d = example_destination and event = ?ev and h = True and completion = "\<lambda>i. i"
            and w = "0::nat", OF g1]
  obtain world1 where
    ful: "(\<forall>i < length ?one. \<not> isl (?out1 world1 i))
            \<longrightarrow> fst (fst ?run1) = Inr (concat (map (\<lambda>i. projr (?out1 world1 i)) [0..<length ?one]))"
    by blast
  have r1: "fst (fst ?run1) = Inr [StepResult (JString ''sent'')]"
    using ful o10 [of world1] by simp
  from g2 g1 o20 o10 r2 r1 len nn2 show ?thesis
    by simp
qed

lemma onSubscription_try_state:
  "onSubscription_try imp d subscription actionSlug input w = ((outcome, state, results), w')
     \<Longrightarrow> (state = ''done'' \<or> state = ''pending'')
         \<and> (state = ''done'' \<longleftrightarrow> isSubscribed imp subscription (in_event input) \<and> \<not> isl outcome)
         \<and> (isSubscribed imp subscription (in_event input)
              \<longrightarrow> (outcome, w') = executeAction d actionSlug input w)"
  by (auto simp: onSubscription_try_def isSubscribed_def Let_def
           split: option.splits json.splits if_splits sum.splits prod.splits)

text \<open>
  C9. The claim: for every subscription processed by \<^verbatim>\<open>onSubscription\<close> whose
  \<^verbatim>\<open>subscribe\<close> value is not a string, or whose filter does not match the event, the
  observer is still invoked and receives the state \<^verbatim>\<open>errored\<close>. A \<^verbatim>\<open>null\<close> element of
  \<^verbatim>\<open>settings.subscriptions\<close> is such a subscription, and \<^verbatim>\<open>onEvent\<close> hands it to
  \<^verbatim>\<open>onSubscription\<close>: reading \<^verbatim>\<open>subscription.partnerAction\<close> throws before the \<^verbatim>\<open>try\<close>
  block and the observer is not invoked.
\<close>

theorem onSubscription_null_unreported:
  "\<not> isSubscribed example_imports JNull (JObject [(''type'', JString ''track'')])
   \<and> onSubscription example_imports example_destination JNull
        (JObject [(''type'', JString ''track'')]) [] True 0
       = ((Inl (TypeError ''Cannot read property partnerAction of null''), []), 0)
   \<and> onEvent example_imports example_destination (JObject [(''type'', JString ''track'')])
        [(''subscriptions'', JArray [JNull])] True (\<lambda>i. i) 0
       = ((Inl (TypeError ''Cannot read property partnerAction of null''), []), 0)"
  by (simp add: dispatch_defs)

text \<open>
  C9, as amended. For every subscription that is not \<^verbatim>\<open>null\<close>, handed to
  \<^verbatim>\<open>onSubscription\<close> together with an observer, the observer is called exactly once. It
  receives the state \<^verbatim>\<open>errored\<close> when \<^verbatim>\<open>subscribe\<close> is not a string or the filter does
  not match the event, and the state \<^verbatim>\<open>done\<close> if and only if the subscription matched
  and the execution of its action completed without throwing.
\<close>

theorem onSubscription_reports_state:
  assumes "subscription \<noteq> JNull"
  shows "\<exists>outcome stats w'.
           onSubscription imp d subscription event settings True w = ((outcome, [stats]), w')
           \<and> (st_state stats = ''done'' \<or> st_state stats = ''errored'')
           \<and> (\<not> isSubscribed imp subscription event \<longrightarrow> st_state stats = ''errored'')
           \<and> (st_state stats = ''done''
                \<longleftrightarrow> isSubscribed imp subscription event \<and> \<not> isl outcome)
           \<and> (isSubscribed imp subscription event
                \<longrightarrow> (outcome, w') = executeAction d (property subscription ''partnerAction'')
                                       (subscription_input subscription event settings) w)"
proof -
  obtain outcome state results w' where
    t: "onSubscription_try imp d subscription (property subscription ''partnerAction'')
          (subscription_input subscription event settings) w = ((outcome, state, results), w')"
    by (metis prod.exhaust)
  have ev: "in_event (subscription_input subscription event settings) = event"
    by (simp add: subscription_input_def)
  from onSubscription_try_state [OF t] assms t ev show ?thesis
    by (auto simp: onSubscription_def Let_def)
qed

theorem onSubscription_reports_state_witness:
  "JObject [(''subscribe'', JNumber ''1''), (''partnerAction'', JString ''trackCustomer'')] \<noteq> JNull
   \<and> \<not> isSubscribed example_imports
         (JObject [(''subscribe'', JNumber ''1''), (''partnerAction'', JString ''trackCustomer'')])
         (JObject [(''type'', JString ''track'')])
   \<and> (\<exists>outcome stats w'.
         onSubscription example_imports example_destination
           (JObject [(''subscribe'', JNumber ''1''), (''partnerAction'', JString ''trackCustomer'')])
           (JObject [(''type'', JString ''track'')]) [] True 0 = ((outcome, [stats]), w')
         \<and> st_state stats = ''errored'')
   \<and> track_customer_subscription \<noteq> JNull
   \<and> isSubscribed example_imports track_customer_subscription (JObject [(''type'', JString ''track'')])
   \<and> (\<exists>outcome stats w'.
         onSubscription example_imports example_destination track_customer_subscription
           (JObject [(''type'', JString ''track'')]) [] True 0 = ((outcome, [stats]), w')
         \<and> \<not> isl outcome \<and> st_state stats = ''done'')"
proof -
  let ?bad = "JObject [(''subscribe'', JNumber ''1''), (''partnerAction'', JString ''trackCustomer'')]"
  let ?ev = "JObject [(''type'', JString ''track'')]"
  have a: "?bad \<noteq> JNull" by simp
  have b: "\<not> isSubscribed example_imports ?bad ?ev"
    by (simp add: isSubscribed_def)
  have c: "track_customer_subscription \<noteq> JNull"
    by (simp add: track_customer_subscription_def)
  have e: "isSubscribed example_imports track_customer_subscription ?ev"
    by (simp add: isSubscribed_def track_customer_subscription_def example_imports_def
          parseFql_type_track)
  have f: "fst (executeAction example_destination
                  (property track_customer_subscription ''partnerAction'')
                  (subscription_input track_customer_subscription ?ev []) (0::nat))
             = Inr [StepResult (JString ''sent'')]"
    by (simp add: dispatch_defs)
  from onSubscription_reports_state [OF a, of example_imports example_destination ?ev "[]" 0] b
  have first: "\<exists>outcome stats w'.
         onSubscription example_imports example_destination ?bad ?ev [] True 0
           = ((outcome, [stats]), w')
         \<and> st_state stats = ''errored''"
    by blast
  from onSubscription_reports_state [OF c, of example_imports example_destination ?ev "[]" 0] e f
  have second: "\<exists>outcome stats w'.
         onSubscription example_imports example_destination track_customer_subscription
           ?ev [] True 0 = ((outcome, [stats]), w')
         \<and> \<not> isl outcome \<and> st_state stats = ''done''"
    by (metis fst_conv isl_def sum.disc(2))
  from a b c e first second show ?thesis by blast
qed


lemma map_of_filter_key:
  "map_of (filter (\<lambda>(k, v). P k) xs) key = (if P key then map_of xs key else None)"
  by (induction xs) auto


text \<open>
  C6. The specification says that the settings forwarded to the action of each
  subscription are the original settings without the subscription-bearing keys
  \<^verbatim>\<open>subscriptions\<close> and \<^verbatim>\<open>subscription\<close>. \<^verbatim>\<open>getDestinationSettings\<close> removes the keys
  \<^verbatim>\<open>subcription\<close> (misspelled) and \<^verbatim>\<open>subscriptions\<close>, so a \<^verbatim>\<open>subscription\<close> entry, which
  \<^verbatim>\<open>getSubscriptions\<close> reads, is forwarded with the rest: for every settings object, and
  at the input \<^verbatim>\<open>{ subscription: ..., apiKey: "k" }\<close> as seen in the input reported to
  the observer.
\<close>

theorem getDestinationSettings_keeps_subscription:
  "map_of (getDestinationSettings settings) ''subscription'' = map_of settings ''subscription''
   \<and> map_of (getDestinationSettings settings) ''subcription'' = None
   \<and> getDestinationSettings
        [(''subscription'', track_customer_subscription), (''apiKey'', JString ''k'')]
       = [(''subscription'', track_customer_subscription), (''apiKey'', JString ''k'')]
   \<and> map (\<lambda>stats. in_settings (st_input stats))
        (snd (fst (onEvent example_imports example_destination
                     (JObject [(''type'', JString ''track'')])
                     [(''subscription'', track_customer_subscription), (''apiKey'', JString ''k'')]
                     True completion 0)))
       = [[(''subscription'', track_customer_subscription), (''apiKey'', JString ''k'')]]"
proof -
  have a: "map_of (getDestinationSettings settings) ''subscription'' = map_of settings ''subscription''"
    unfolding getDestinationSettings_def
    using map_of_filter_key [of "\<lambda>k. k \<noteq> ''subcription'' \<and> k \<noteq> ''subscriptions''" settings
            "''subscription''"]
    by simp
  have b: "map_of (getDestinationSettings settings) ''subcription'' = None"
    unfolding getDestinationSettings_def
    using map_of_filter_key [of "\<lambda>k. k \<noteq> ''subcription'' \<and> k \<noteq> ''subscriptions''" settings
            "''subcription''"]
    by simp
  have c: "getDestinationSettings
             [(''subscription'', track_customer_subscription), (''apiKey'', JString ''k'')]
           = [(''subscription'', track_customer_subscription), (''apiKey'', JString ''k'')]"
    by (simp add: getDestinationSettings_def)
  have d: "map (\<lambda>stats. in_settings (st_input stats))
        (snd (fst (onEvent example_imports example_destination
                     (JObject [(''type'', JString ''track'')])
                     [(''subscription'', track_customer_subscription), (''apiKey'', JString ''k'')]
                     True completion 0)))
       = [[(''subscription'', track_customer_subscription), (''apiKey'', JString ''k'')]]"
    by (simp add: dispatch_defs parseFql_type_track)
  from a b c d show ?thesis by blast
qed



section \<open>Claims about the credential test\<close>

lemmas credential_defs = testAuthentication_def test_credentials_def validate_settings_def
  extend_test_request_def test_context_def test_request_def example_destination_def
  invalid_settings_destination_def failing_extension_destination_def rejecting_destination_def
  startsWith_def

text \<open>
  C2. The claim: every failure on the credential-test path, also a failure of the
  settings validation, is normalized to the one error \<^verbatim>\<open>Credentials are invalid\<close>, and
  the cause is discarded from the result shown to the user. On the code a validation
  error leaves \<^verbatim>\<open>testAuthentication\<close> as it is, and the handler reports it with the
  message of every offending field; an error thrown by \<^verbatim>\<open>extendRequest\<close> is reported
  with its own message.
\<close>

theorem testAuthentication_keeps_validation_error:
  "testAuthentication invalid_settings_destination []
     = Inl (AggregateAjvError [(''$.apiKey'', ''The value at $.apiKey should be a string'')])
   \<and> test_credentials invalid_settings_destination []
       = \<lparr>rs_status = 200, rs_ok = False, rs_error = Some ''Credentials are invalid'',
          rs_fields = Some [(''apiKey'', ''The value at $.apiKey should be a string'')]\<rparr>
   \<and> testAuthentication failing_extension_destination [] = Inl (Error ''apiKey is not defined'')
   \<and> test_credentials failing_extension_destination []
       = \<lparr>rs_status = 200, rs_ok = False, rs_error = Some ''apiKey is not defined'',
          rs_fields = None\<rparr>"
  by (simp add: credential_defs)

text \<open>
  C2, as amended. A failure of the call \<^verbatim>\<open>authentication.testAuthentication\<close> is
  normalized to the one error \<^verbatim>\<open>Credentials are invalid\<close>, which is all the handler
  reports. A failure of the settings validation is returned by \<^verbatim>\<open>testAuthentication\<close>
  unchanged. Every error of \<^verbatim>\<open>testAuthentication\<close> is the validation error, an error
  thrown by \<^verbatim>\<open>extendRequest\<close>, or \<^verbatim>\<open>Credentials are invalid\<close>.
\<close>

theorem testAuthentication_failures:
  "(testAuthentication d settings = Inl e
      \<longrightarrow> validate_settings d settings = Inl e
          \<or> extend_test_request d settings = Inl e
          \<or> e = Error ''Credentials are invalid'')
   \<and> (validate_settings d settings = Inl e \<longrightarrow> testAuthentication d settings = Inl e)
   \<and> (validate_settings d settings = Inr ()
        \<and> d_testAuthentication d = Some test
        \<and> extend_test_request d settings = Inr request
        \<and> test request settings = Inl cause
      \<longrightarrow> testAuthentication d settings = Inl (Error ''Credentials are invalid'')
          \<and> test_credentials d settings
              = \<lparr>rs_status = 200, rs_ok = False, rs_error = Some ''Credentials are invalid'',
                 rs_fields = None\<rparr>)"
  by (auto simp: testAuthentication_def test_credentials_def
           split: sum.splits option.splits)

theorem testAuthentication_failures_witness:
  "testAuthentication invalid_settings_destination []
     = Inl (AggregateAjvError [(''$.apiKey'', ''The value at $.apiKey should be a string'')])
   \<and> validate_settings invalid_settings_destination []
       = Inl (AggregateAjvError [(''$.apiKey'', ''The value at $.apiKey should be a string'')])
   \<and> validate_settings rejecting_destination [] = Inr ()
   \<and> d_testAuthentication rejecting_destination
       = Some (\<lambda>request settings. Inl (Error ''Response code 401 (Unauthorized)''))
   \<and> extend_test_request rejecting_destination [] = Inr test_request
   \<and> testAuthentication rejecting_destination [] = Inl (Error ''Credentials are invalid'')
   \<and> test_credentials rejecting_destination []
       = \<lparr>rs_status = 200, rs_ok = False, rs_error = Some ''Credentials are invalid'',
          rs_fields = None\<rparr>"
proof -
  let ?agg = "AggregateAjvError [(''$.apiKey'', ''The value at $.apiKey should be a string'')]"
  let ?test = "\<lambda>(request :: unit Request) (settings :: JSONObject).
                 Inl (Error ''Response code 401 (Unauthorized)'') :: error + unit"
  have v: "validate_settings invalid_settings_destination [] = Inl ?agg"
    by (simp add: credential_defs)
  have a: "validate_settings rejecting_destination [] = Inr ()"
    by (simp add: credential_defs)
  have b: "d_testAuthentication rejecting_destination = Some ?test"
    by (simp add: credential_defs)
  have c: "extend_test_request rejecting_destination [] = Inr test_request"
    by (simp add: credential_defs)
  from testAuthentication_failures [of invalid_settings_destination "[]" ?agg] v
       testAuthentication_failures
         [of rejecting_destination "[]" "Error ''Credentials are invalid''" ?test test_request
             "Error ''Response code 401 (Unauthorized)''"] a b c
  show ?thesis by simp
qed


end
